theory Spec2Isabelle
  imports Main
begin

section \<open>Values, reactive cells and the world outside the controller\<close>

text \<open>
  The module \<open>src/database/index.ts\<close> binds a Firebase Realtime Database reference to a
  Vue reactive cell. JavaScript values are modelled by \<open>jsval\<close>; \<open>JSource n\<close> is the
  \<open>DatabaseReference | Query\<close> object with identity \<open>n\<close> (JavaScript compares such objects
  by identity), \<open>JError\<close> an \<open>Error\<close> object, \<open>JPromise p\<close> the promise with identity \<open>p\<close>.
\<close>

type_synonym addr = nat
type_synonym promise_id = nat
type_synonym sub_id = nat

datatype jsval =
    JUndefined
  | JNull
  | JBool bool
  | JNum int
  | JStr string
  | JArr "jsval list"
  | JObj "(string \<times> jsval) list"
  | JError string
  | JSource nat
  | JPromise promise_id

text \<open>\<open>Array.isArray\<close>.\<close>

fun isArray :: "jsval \<Rightarrow> bool" where
  "isArray (JArr _) = True"
| "isArray _ = False"

text \<open>
  The \<open>reset\<close> option (\<open>_DatabaseRefOptions['reset']\<close>): left out (\<open>undefined\<close>), a boolean,
  or a value to reset to.
\<close>

datatype reset = ResetUndefined | ResetBool bool | ResetValue jsval

text \<open>
  What a property getter installed by \<open>Object.defineProperties\<close> returns: one of the
  reactive cells (by address) or the controller's \<open>unbind\<close> function.
\<close>

datatype accessor = ReturnsCell addr | ReturnsUnbind

text \<open>
  A reactive cell (\<open>Ref\<close>): its \<open>.value\<close> and the own accessor properties defined on the
  cell object.
\<close>

record cell =
  cvalue :: jsval
  props :: "string \<rightharpoonup> accessor"

definition empty_cell :: cell where
  "empty_cell = \<lparr>cvalue = JUndefined, props = Map.empty\<rparr>"

text \<open>The two bind functions of \<open>./subscribe\<close>, and one listener attached by a call to one of them.\<close>

datatype bind_kind = AsArray | AsObject

record subscription =
  sub_kind :: bind_kind
  sub_target :: addr
  sub_source :: jsval
  sub_promise :: promise_id

text \<open>
  The unbind procedure a bind function returns (\<open>UnbindType\<close>): a closure over the listener
  it attached.
\<close>

datatype handle = Unbind sub_id

datatype pstate = Pending | Fulfilled jsval | Rejected jsval

text \<open>
  The world the controller runs in: the heap of reactive cells (addresses from \<open>next_addr\<close>
  on are not allocated yet), the promises created so far (a promise's identity is its
  index), every listener a bind function has attached (a listener's identity is its index) with
  the set of those still attached, and the log of the calls made to unbind procedures.
\<close>

record world =
  cells :: "addr \<Rightarrow> cell"
  next_addr :: addr
  promises :: "pstate list"
  subs :: "subscription list"
  live :: "sub_id set"
  unbind_calls :: "(handle \<times> reset) list"

definition empty_world :: world where
  "empty_world = \<lparr>cells = (\<lambda>_. empty_cell), next_addr = 0, promises = [], subs = [],
     live = {}, unbind_calls = []\<rparr>"

text \<open>\<open>ref(v)\<close> and \<open>shallowRef(v)\<close>: a fresh cell holding \<open>v\<close>.\<close>

definition ref :: "jsval \<Rightarrow> world \<Rightarrow> addr \<times> world" where
  "ref v w =
     (next_addr w,
      w\<lparr>cells := (cells w)(next_addr w := \<lparr>cvalue = v, props = Map.empty\<rparr>),
        next_addr := Suc (next_addr w)\<rparr>)"

text \<open>Reading and writing \<open>cell.value\<close>.\<close>

definition get_value :: "addr \<Rightarrow> world \<Rightarrow> jsval" where
  "get_value a w = cvalue (cells w a)"

definition set_value :: "addr \<Rightarrow> jsval \<Rightarrow> world \<Rightarrow> world" where
  "set_value a v w = w\<lparr>cells := (cells w)(a := (cells w a)\<lparr>cvalue := v\<rparr>)\<rparr>"

section \<open>Mutation primitives\<close>

text \<open>
  \<open>Array.prototype.splice(start, deleteCount, ...items)\<close>: a negative \<open>start\<close> counts from
  the end, both arguments are clamped to the array. The result is the array after the
  call and the array of removed items that \<open>splice\<close> returns.
\<close>

definition splice :: "'a list \<Rightarrow> int \<Rightarrow> int \<Rightarrow> 'a list \<Rightarrow> 'a list \<times> 'a list" where
  "splice array start deleteCount items =
     (let len = int (length array);
          s = (if start < 0 then max (len + start) 0 else min start len);
          dc = min (max deleteCount 0) (len - s)
      in (take (nat s) array @ items @ drop (nat (s + dc)) array,
          take (nat dc) (drop (nat s) array)))"

text \<open>
  \<open>ops.add\<close> and \<open>ops.remove\<close> (lines 29 and 30). \<open>ops.set\<close> is \<open>walkSet\<close> of
  \<open>../shared\<close>.
\<close>

definition ops_add :: "'a list \<Rightarrow> int \<Rightarrow> 'a \<Rightarrow> 'a list \<times> 'a list" where
  "ops_add array index data = splice array index 0 [data]"

definition ops_remove :: "'a list \<Rightarrow> int \<Rightarrow> 'a list \<times> 'a list" where
  "ops_remove array index = splice array index 1 []"

section \<open>Bind functions and unbind procedures\<close>

text \<open>
  Modelled from the spec: \<open>bindAsArray\<close> and \<open>bindAsObject\<close> are defined in \<open>./subscribe\<close>,
  which is not among the sources. By their contract each of them, called with
  \<open>{target, source, resolve, reject, ops}\<close> and the caller's options, attaches a live
  listener to \<open>source\<close> and returns an unbind procedure for it; \<open>resolve\<close> and \<open>reject\<close> are
  called later, from the listener. The promise whose \<open>resolve\<close>/\<open>reject\<close> was handed over
  is kept with the listener.
\<close>

definition attach :: "bind_kind \<Rightarrow> addr \<Rightarrow> jsval \<Rightarrow> promise_id \<Rightarrow> world \<Rightarrow> handle \<times> world" where
  "attach b target source p w =
     (Unbind (length (subs w)),
      w\<lparr>subs := subs w @ [\<lparr>sub_kind = b, sub_target = target, sub_source = source,
                            sub_promise = p\<rparr>],
        live := insert (length (subs w)) (live w)\<rparr>)"

text \<open>
  Modelled from the spec: \<open>bindAsArray\<close> of \<open>./subscribe\<close>, the array-style bind function,
  called with \<open>{target, collection, resolve, reject, ops}\<close>.
\<close>

definition bindAsArray :: "addr \<Rightarrow> jsval \<Rightarrow> promise_id \<Rightarrow> world \<Rightarrow> handle \<times> world" where
  "bindAsArray target collection p w = attach AsArray target collection p w"

text \<open>
  Modelled from the spec: \<open>bindAsObject\<close> of \<open>./subscribe\<close>, the object-style bind function,
  called with \<open>{target, document, resolve, reject, ops}\<close>.
\<close>

definition bindAsObject :: "addr \<Rightarrow> jsval \<Rightarrow> promise_id \<Rightarrow> world \<Rightarrow> handle \<times> world" where
  "bindAsObject target document p w = attach AsObject target document p w"

text \<open>
  Modelled from the spec: what the reset policy does to the target of a listener when its
  unbind procedure runs. \<open>false\<close> disables the reset, a provided value becomes the
  container's value, and otherwise the container is replaced with the empty sequence
  (\<open>bindAsArray\<close>) or the absent value (\<open>bindAsObject\<close>).
\<close>

fun apply_reset :: "subscription \<Rightarrow> reset \<Rightarrow> world \<Rightarrow> world" where
  "apply_reset s (ResetBool False) w = w"
| "apply_reset s (ResetValue v) w = set_value (sub_target s) v w"
| "apply_reset s _ w =
     set_value (sub_target s) (case sub_kind s of AsArray \<Rightarrow> JArr [] | AsObject \<Rightarrow> JUndefined) w"

text \<open>
  Modelled from the spec: calling an unbind procedure \<open>h(reset)\<close>. It detaches the listener
  and applies the reset policy to the listener's target. The call is appended to the log
  \<open>unbind_calls\<close>.
\<close>

fun invoke :: "handle \<Rightarrow> reset \<Rightarrow> world \<Rightarrow> world" where
  "invoke (Unbind s) r w =
     (let w1 = w\<lparr>live := live w - {s}, unbind_calls := unbind_calls w @ [(Unbind s, r)]\<rparr>
      in if s < length (subs w) then apply_reset (subs w ! s) r w1 else w1)"

section \<open>The unbind registry\<close>

datatype js_error = TypeError

text \<open>
  The registry \<open>Record<string, UnbindType> | undefined\<close> is a plain object, given by the map
  of its own keys, or \<open>None\<close> for \<open>undefined\<close>. The property read \<open>unbinds[key]\<close> of line 140
  finds an own key first and otherwise follows the prototype chain to \<open>Object.prototype\<close>,
  whose properties are the eleven functions below and the accessor \<open>__proto__\<close>, which
  returns \<open>Object.prototype\<close> itself. Every value found is truthy.
\<close>

definition object_prototype_functions :: "string list" where
  "object_prototype_functions =
     [''constructor'', ''__defineGetter__'', ''__defineSetter__'', ''hasOwnProperty'',
      ''__lookupGetter__'', ''__lookupSetter__'', ''isPrototypeOf'', ''propertyIsEnumerable'',
      ''toString'', ''valueOf'', ''toLocaleString'']"

definition object_prototype_keys :: "string list" where
  "object_prototype_keys = ''__proto__'' # object_prototype_functions"

datatype member = OwnFunction handle | InheritedFunction string | InheritedObject

definition get_member :: "(string \<rightharpoonup> handle) \<Rightarrow> string \<Rightarrow> member option" where
  "get_member m key =
     (case m key of
        Some h \<Rightarrow> Some (OwnFunction h)
      | None \<Rightarrow>
          if key = ''__proto__'' then Some InheritedObject
          else if key \<in> set object_prototype_functions then Some (InheritedFunction key)
          else None)"

text \<open>
  The call \<open>unbinds[key](reset)\<close> of line 141, with the registry as \<open>this\<close>. A stored unbind
  procedure runs. \<open>Object.prototype\<close> is not callable. Of the inherited functions,
  \<open>__defineGetter__\<close> and \<open>__defineSetter__\<close> throw a \<open>TypeError\<close> because their second
  argument is missing, \<open>toLocaleString\<close> calls \<open>this.toString()\<close>, which is an unbind
  procedure called without argument when the registry owns the key \<open>toString\<close>, and the
  others return without effect.
\<close>

definition call_member ::
  "(string \<rightharpoonup> handle) \<Rightarrow> member \<Rightarrow> reset \<Rightarrow> world \<Rightarrow> js_error + world" where
  "call_member m f r w =
     (case f of
        OwnFunction h \<Rightarrow> Inr (invoke h r w)
      | InheritedObject \<Rightarrow> Inl TypeError
      | InheritedFunction k \<Rightarrow>
          if k = ''__defineGetter__'' \<or> k = ''__defineSetter__'' then Inl TypeError
          else if k = ''toLocaleString''
          then (case m ''toString'' of
                  Some h \<Rightarrow> Inr (invoke h ResetUndefined w)
                | None \<Rightarrow> Inr w)
          else Inr w)"

text \<open>
  \<open>internalUnbind(key, unbinds, reset)\<close> (lines 135 to 147). \<open>delete unbinds[key]\<close> removes
  an own key and does nothing otherwise. The result is the exception thrown, or the
  registry after the call and the world after it.
\<close>

definition internalUnbind ::
  "string \<Rightarrow> (string \<rightharpoonup> handle) option \<Rightarrow> reset \<Rightarrow> world \<Rightarrow>
     js_error + (string \<rightharpoonup> handle) option \<times> world" where
  "internalUnbind key unbinds r w =
     (case unbinds of
        None \<Rightarrow> Inr (None, w)
      | Some m \<Rightarrow>
          (case get_member m key of
             None \<Rightarrow> Inr (Some m, w)
           | Some f \<Rightarrow>
               (case call_member m f r w of
                  Inl e \<Rightarrow> Inl e
                | Inr w' \<Rightarrow> Inr (Some (m(key := None)), w'))))"

section \<open>The subscription lifecycle controller\<close>

text \<open>
  The \<open>reference\<close> argument (\<open>_MaybeRef<DatabaseReference | Query>\<close>): a plain value, or a
  reactive cell holding one (\<open>isRef\<close>).
\<close>

datatype reference = Plain jsval | Reactive addr

text \<open>
  \<open>UseDatabaseRefOptions\<close>. The key \<open>target\<close> can be missing from the object, present with
  the value \<open>undefined\<close>, or hold a reactive cell; the object spread of \<open>useList\<close> and
  \<open>useObject\<close> tells the first two apart. The other options of \<open>_DatabaseRefOptions\<close>
  (declared in \<open>./subscribe\<close>) are only handed on to the bind functions.
\<close>

datatype target_option = TargetAbsent | TargetUndefined | TargetCell addr

record options =
  target :: target_option
  initialValue :: jsval
  reset :: reset

text \<open>The default \<open>options = {}\<close>.\<close>

definition no_options :: options where
  "no_options = \<lparr>target = TargetAbsent, initialValue = JUndefined, reset = ResetUndefined\<rparr>"

text \<open>\<open>stopWatcher\<close>: \<open>noop\<close>, or the stop function \<open>watch\<close> returned.\<close>

datatype stopper = Noop | StopWatch

text \<open>
  The variables closed over by one call of \<open>_useDatabaseRef\<close> (\<open>priv_unbind\<close> is \<open>_unbind\<close>,
  declared without a value), followed by what the framework keeps for this call: whether
  the watcher on the reference is running, the value it saw last, and whether the owning
  scope has been disposed.
\<close>

record ctl =
  reference :: reference
  options :: options
  data :: addr
  error :: addr
  pending :: addr
  promise :: addr
  createdPromises :: "promise_id list"
  hasCurrentScope :: bool
  priv_unbind :: "handle option"
  stopWatcher :: stopper
  watching :: bool
  oldValue :: jsval
  scope_disposed :: bool

text \<open>\<open>unref(reference)\<close>.\<close>

fun unref :: "reference \<Rightarrow> world \<Rightarrow> jsval" where
  "unref (Plain v) w = v"
| "unref (Reactive a) w = get_value a w"

text \<open>
  \<open>bindDatabaseRef\<close> (lines 53 to 100). The promise executor runs at once: it dereferences
  the reference, chooses the bind function by \<open>Array.isArray(data.value)\<close> and stores the
  returned unbind procedure in \<open>_unbind\<close>. The new promise is added to \<open>createdPromises\<close>
  and stored in \<open>promise.value\<close>. The handlers of lines 89 to 93 are attached to every
  promise in \<open>createdPromises\<close>; \<open>settle\<close> below runs them.
\<close>

definition bindDatabaseRef :: "ctl \<Rightarrow> world \<Rightarrow> ctl \<times> world" where
  "bindDatabaseRef c w =
     (let p = length (promises w);
          w1 = w\<lparr>promises := promises w @ [Pending]\<rparr>;
          referenceValue = unref (reference c) w1;
          (h, w2) = (if isArray (get_value (data c) w1)
                     then bindAsArray (data c) referenceValue p w1
                     else bindAsObject (data c) referenceValue p w1);
          c1 = c\<lparr>priv_unbind := Some h, createdPromises := createdPromises c @ [p]\<rparr>
      in (c1, set_value (promise c1) (JPromise p) w2))"

text \<open>
  The handlers attached by \<open>p.catch(...).finally(...)\<close> (lines 89 to 93): the rejection
  handler stores the reason in \<open>error.value\<close>, the \<open>finally\<close> handler clears
  \<open>pending.value\<close>.
\<close>

definition on_rejected :: "jsval \<Rightarrow> ctl \<Rightarrow> world \<Rightarrow> world" where
  "on_rejected reason c w = set_value (error c) reason w"

definition on_finally :: "ctl \<Rightarrow> world \<Rightarrow> world" where
  "on_finally c w = set_value (pending c) (JBool False) w"

text \<open>
  A listener calls \<open>resolve(v)\<close> or \<open>reject(reason)\<close> of promise \<open>p\<close>. A promise settles once:
  a call on a promise that is not pending does nothing. When \<open>p\<close> is one of this
  controller's promises its handlers run: on resolution \<open>catch\<close> passes the value through
  and only the \<open>finally\<close> handler runs; on rejection the rejection handler runs, then the
  \<open>finally\<close> handler.
\<close>

datatype outcome = Resolve jsval | Reject jsval

definition settle :: "promise_id \<Rightarrow> outcome \<Rightarrow> ctl \<Rightarrow> world \<Rightarrow> world" where
  "settle p out c w =
     (if p < length (promises w) \<and> promises w ! p = Pending then
        (let w1 = w\<lparr>promises := (promises w)
                       [p := (case out of Resolve v \<Rightarrow> Fulfilled v | Reject r \<Rightarrow> Rejected r)]\<rparr>
         in if p \<in> set (createdPromises c)
            then (case out of
                    Resolve v \<Rightarrow> on_finally c w1
                  | Reject r \<Rightarrow> on_finally c (on_rejected r c w1))
            else w1)
      else w)"

text \<open>
  \<open>watch(reference, bindDatabaseRef, { immediate: true })\<close> (line 104) on the reactive cell
  \<open>a\<close>: the callback runs once at setup, the watcher remembers the value it saw, and the
  stop function is returned.
\<close>

definition watch :: "addr \<Rightarrow> ctl \<Rightarrow> world \<Rightarrow> stopper \<times> ctl \<times> world" where
  "watch a c w =
     (let (c1, w1) = bindDatabaseRef (c\<lparr>watching := True, oldValue := get_value a w\<rparr>) w
      in (StopWatch, c1, w1))"

text \<open>
  The reference cell is assigned \<open>v\<close> and the watcher's job runs: while the watcher is
  running and the value it reads differs from the one it saw last, the callback
  \<open>bindDatabaseRef\<close> runs. A plain reference has no cell to assign.
\<close>

definition reference_set :: "jsval \<Rightarrow> ctl \<Rightarrow> world \<Rightarrow> ctl \<times> world" where
  "reference_set v c w =
     (case reference c of
        Plain _ \<Rightarrow> (c, w)
      | Reactive a \<Rightarrow>
          (let w1 = set_value a v w;
               newValue = get_value a w1
           in if watching c \<and> newValue \<noteq> oldValue c
              then bindDatabaseRef (c\<lparr>oldValue := newValue\<rparr>) w1
              else (c, w1)))"

text \<open>Calling \<open>stopWatcher()\<close>.\<close>

fun stop :: "stopper \<Rightarrow> ctl \<Rightarrow> ctl" where
  "stop Noop c = c"
| "stop StopWatch c = c\<lparr>watching := False\<rparr>"

text \<open>
  The call \<open>_unbind(options.reset)\<close>; calling the variable while it is still \<open>undefined\<close>
  throws a \<open>TypeError\<close>.
\<close>

definition call_priv_unbind :: "ctl \<Rightarrow> world \<Rightarrow> js_error + world" where
  "call_priv_unbind c w =
     (case priv_unbind c of
        None \<Rightarrow> Inl TypeError
      | Some h \<Rightarrow> Inr (invoke h (reset (options c)) w))"

text \<open>The callback given to \<open>onScopeDispose\<close> (lines 110 to 116).\<close>

definition scope_teardown :: "ctl \<Rightarrow> world \<Rightarrow> js_error + ctl \<times> world" where
  "scope_teardown c w =
     (case call_priv_unbind c w of Inl e \<Rightarrow> Inl e | Inr w' \<Rightarrow> Inr (c, w'))"

text \<open>The function \<open>unbind\<close> of the handle (lines 120 to 123).\<close>

definition unbind :: "ctl \<Rightarrow> world \<Rightarrow> js_error + ctl \<times> world" where
  "unbind c w =
     (let c1 = stop (stopWatcher c) c
      in case call_priv_unbind c1 w of Inl e \<Rightarrow> Inl e | Inr w' \<Rightarrow> Inr (c1, w'))"

text \<open>
  The owning scope is disposed (Vue's \<open>EffectScope.stop\<close>). When a scope was current at
  construction, the watcher was created inside it and the teardown callback was
  registered with it: the scope stops the effects it collected and then runs the
  registered callbacks, once.
\<close>

definition dispose_scope :: "ctl \<Rightarrow> world \<Rightarrow> js_error + ctl \<times> world" where
  "dispose_scope c w =
     (if hasCurrentScope c \<and> \<not> scope_disposed c
      then scope_teardown (c\<lparr>watching := False, scope_disposed := True\<rparr>) w
      else Inr (c, w))"

text \<open>
  \<open>Object.defineProperties(obj, {k: {get}, ...})\<close>: the properties are defined in order,
  each one not configurable; defining a key the object already owns as such a property,
  with another getter, throws a \<open>TypeError\<close> and leaves the later keys undefined.
\<close>

fun defineProperties :: "addr \<Rightarrow> (string \<times> accessor) list \<Rightarrow> world \<Rightarrow> js_error option \<times> world" where
  "defineProperties a [] w = (None, w)"
| "defineProperties a ((k, g) # ps) w =
     (if props (cells w a) k \<noteq> None then (Some TypeError, w)
      else defineProperties a ps
             (w\<lparr>cells := (cells w)(a := (cells w a)\<lparr>props := (props (cells w a))(k \<mapsto> g)\<rparr>)\<rparr>))"

text \<open>The property descriptors of lines 126 to 131, with the getters as written.\<close>

definition descriptors :: "ctl \<Rightarrow> (string \<times> accessor) list" where
  "descriptors c =
     [(''data'', ReturnsCell (data c)),
      (''error'', ReturnsCell (error c)),
      (''pending'', ReturnsCell (error c)),
      (''promise'', ReturnsCell (promise c)),
      (''unbind'', ReturnsUnbind)]"

text \<open>
  \<open>_useDatabaseRef(reference, options)\<close> (lines 39 to 133); \<open>scope\<close> says whether
  \<open>getCurrentScope()\<close> returns a scope. With a scope the teardown callback is registered
  (lines 109 to 117); \<open>hasCurrentScope\<close> of the closure records it, and \<open>dispose_scope\<close>
  runs the callback. The result is the returned handle (the address of a cell) or the
  exception thrown, the closure of the call, and the world after it.
\<close>

definition useDatabaseRef ::
  "reference \<Rightarrow> options \<Rightarrow> bool \<Rightarrow> world \<Rightarrow> (js_error + addr) \<times> ctl \<times> world" where
  "useDatabaseRef rf opts scope w0 =
     (let (d, w1) = (case target opts of
                       TargetCell a \<Rightarrow> (a, w0)
                     | _ \<Rightarrow> ref (initialValue opts) w0);
          (e, w2) = ref JUndefined w1;
          (pe, w3) = ref (JBool True) w2;
          (pr, w4) = ref JUndefined w3;
          c0 = \<lparr>reference = rf, options = opts, data = d, error = e, pending = pe,
                promise = pr, createdPromises = [], hasCurrentScope = scope,
                priv_unbind = None, stopWatcher = Noop, watching = False,
                oldValue = JUndefined, scope_disposed = False\<rparr>;
          (c1, w5) = (case rf of
                        Reactive a \<Rightarrow>
                          (let (st, c', w') = watch a c0 w4 in (c'\<lparr>stopWatcher := st\<rparr>, w'))
                      | Plain _ \<Rightarrow> bindDatabaseRef c0 w4);
          (r, w6) = defineProperties d (descriptors c1) w5
      in (case r of Some x \<Rightarrow> Inl x | None \<Rightarrow> Inr d, c1, w6))"

text \<open>
  The object spread \<open>{ target: data, ...options }\<close> of lines 164 to 167 and 175 to 178: a
  key \<open>target\<close> of the caller's options, whatever its value, replaces the entry point's
  cell.
\<close>

definition spread :: "addr \<Rightarrow> options option \<Rightarrow> options" where
  "spread d opts =
     (case opts of
        None \<Rightarrow> no_options\<lparr>target := TargetCell d\<rparr>
      | Some ops \<Rightarrow> (case target ops of TargetAbsent \<Rightarrow> ops\<lparr>target := TargetCell d\<rparr> | _ \<Rightarrow> ops))"

text \<open>\<open>useList\<close> (lines 158 to 168) and \<open>useObject\<close> (lines 170 to 179).\<close>

definition useList ::
  "reference \<Rightarrow> options option \<Rightarrow> bool \<Rightarrow> world \<Rightarrow> (js_error + addr) \<times> ctl \<times> world" where
  "useList rf opts scope w =
     (let (d, w1) = ref (JArr []) w in useDatabaseRef rf (spread d opts) scope w1)"

definition useObject ::
  "reference \<Rightarrow> options option \<Rightarrow> bool \<Rightarrow> world \<Rightarrow> (js_error + addr) \<times> ctl \<times> world" where
  "useObject rf opts scope w =
     (let (d, w1) = ref JUndefined w in useDatabaseRef rf (spread d opts) scope w1)"

text \<open>
  What can happen to a controller after construction: a listener settles one of the
  promises, the reference cell is assigned, the consumer calls the handle's \<open>unbind()\<close>,
  the owning scope is disposed.
\<close>

datatype event = Settle promise_id outcome | ReferenceSet jsval | CallUnbind | ScopeDispose

fun step :: "event \<Rightarrow> ctl \<times> world \<Rightarrow> js_error + ctl \<times> world" where
  "step (Settle p out) (c, w) = Inr (c, settle p out c w)"
| "step (ReferenceSet v) (c, w) = Inr (reference_set v c w)"
| "step CallUnbind (c, w) = unbind c w"
| "step ScopeDispose (c, w) = dispose_scope c w"

fun run :: "event list \<Rightarrow> ctl \<times> world \<Rightarrow> js_error + ctl \<times> world" where
  "run [] s = Inr s"
| "run (ev # evs) s = (case step ev s of Inl e \<Rightarrow> Inl e | Inr s' \<Rightarrow> run evs s')"

text \<open>Reading the property \<open>k\<close> of the object at \<open>a\<close>: what its getter returns.\<close>

definition get_property :: "addr \<Rightarrow> string \<Rightarrow> world \<Rightarrow> accessor option" where
  "get_property a k w = props (cells w a) k"

section \<open>Observations on controllers\<close>

text \<open>The closure and the world in the result of a call.\<close>

abbreviation closure_of :: "'a \<times> ctl \<times> world \<Rightarrow> ctl" where
  "closure_of x \<equiv> fst (snd x)"

abbreviation world_of :: "'a \<times> ctl \<times> world \<Rightarrow> world" where
  "world_of x \<equiv> snd (snd x)"

text \<open>The keys \<open>Object.defineProperties\<close> defines on the container.\<close>

definition accessor_keys :: "string list" where
  "accessor_keys = [''data'', ''error'', ''pending'', ''promise'', ''unbind'']"

text \<open>The caller's options, if any, have no key \<open>target\<close>.\<close>

definition no_target_key :: "options option \<Rightarrow> bool" where
  "no_target_key opts = (case opts of None \<Rightarrow> True | Some ops \<Rightarrow> target ops = TargetAbsent)"

text \<open>
  The values the watcher of a reactive reference gets to see in a sequence of events: the
  assignments made before the watcher is stopped by \<open>unbind()\<close> or, when there is an
  owning scope, by its disposal.
\<close>

fun observed :: "bool \<Rightarrow> event list \<Rightarrow> jsval list" where
  "observed scope [] = []"
| "observed scope (ReferenceSet v # evs) = v # observed scope evs"
| "observed scope (Settle p out # evs) = observed scope evs"
| "observed scope (CallUnbind # evs) = []"
| "observed scope (ScopeDispose # evs) = (if scope then [] else observed scope evs)"

text \<open>The three state cells of a closure are different cells.\<close>

definition cells_distinct :: "ctl \<Rightarrow> bool" where
  "cells_distinct c =
     (error c \<noteq> pending c \<and> error c \<noteq> promise c \<and> pending c \<noteq> promise c)"

text \<open>
  What holds of the closure of \<open>_useDatabaseRef rf opts\<close> (called with or without a
  current scope) from the end of the call on.
\<close>

definition ctl_inv :: "reference \<Rightarrow> options \<Rightarrow> bool \<Rightarrow> ctl \<Rightarrow> bool" where
  "ctl_inv rf opts scope c =
     (reference c = rf \<and> options c = opts \<and> hasCurrentScope c = scope \<and>
      priv_unbind c \<noteq> None \<and> cells_distinct c \<and>
      stopWatcher c = (case rf of Plain _ \<Rightarrow> Noop | Reactive _ \<Rightarrow> StopWatch) \<and>
      (watching c \<longrightarrow> (\<exists>a. rf = Reactive a) \<and> \<not> scope_disposed c))"

subsection \<open>Example runs\<close>

text \<open>
  A world with one reactive cell, at address 0, holding the reference \<open>JSource 1\<close>; the
  world after that cell has been the target of a call of \<open>_useDatabaseRef\<close>; a
  controller constructed in it on that cell, inside a scope, with no options; and the
  states it reaches: after the cell is assigned \<open>JSource 2\<close>; after it is then assigned
  \<open>JSource 1\<close> again; after the scope is disposed and the cell is assigned then; after the
  first attempt resolves and the cell is assigned then; and after the first attempt
  rejects, the cell is assigned and the second attempt resolves.
\<close>

definition demo_world :: world where
  "demo_world = snd (ref (JSource 1) empty_world)"


definition demo_start :: "ctl \<times> world" where
  "demo_start = snd (useDatabaseRef (Reactive 0) no_options True demo_world)"

definition demo_rebound :: "ctl \<times> world" where
  "demo_rebound = reference_set (JSource 2) (fst demo_start) (snd demo_start)"

definition demo_toggled :: "js_error + ctl \<times> world" where
  "demo_toggled = run [ReferenceSet (JSource 2), ReferenceSet (JSource 1)] demo_start"

definition demo_disposed :: "js_error + ctl \<times> world" where
  "demo_disposed = run [ScopeDispose, ReferenceSet (JSource 2)] demo_start"

definition demo_resolved_rebound :: "js_error + ctl \<times> world" where
  "demo_resolved_rebound = run [Settle 0 (Resolve JNull), ReferenceSet (JSource 2)] demo_start"

definition demo_rejected_resolved :: "js_error + ctl \<times> world" where
  "demo_rejected_resolved =
     run [Settle 0 (Reject (JError ''denied'')), ReferenceSet (JSource 2), Settle 1 (Resolve JNull)]
       demo_start"

section \<open>Properties of the mutation primitives\<close>

lemma splice_insert:
  "0 \<le> i \<Longrightarrow> i \<le> int (length s) \<Longrightarrow>
   splice s i 0 [x] = (take (nat i) s @ x # drop (nat i) s, [])"
  by (simp add: splice_def Let_def min_def max_def)

lemma splice_delete_inserted:
  "0 \<le> i \<Longrightarrow> i \<le> int (length s) \<Longrightarrow>
   splice (take (nat i) s @ x # drop (nat i) s) i 1 [] = (s, [x])"
  by (auto simp: splice_def Let_def min_def max_def nat_add_distrib)

text \<open>
  Claim C7: for every sequence \<open>s\<close>, item \<open>x\<close> and index \<open>i\<close> with \<open>0 \<le> i \<le> length s\<close>,
  inserting \<open>x\<close> at \<open>i\<close> with \<open>ops.add\<close> and then removing at the same index \<open>i\<close> with
  \<open>ops.remove\<close> gives back \<open>s\<close>; the removed item is \<open>x\<close>.
\<close>

theorem insert_then_remove_restores:
  assumes "0 \<le> i" and "i \<le> int (length s)"
  shows "ops_remove (fst (ops_add s i x)) i = (s, [x])"
  using assms by (simp add: ops_add_def ops_remove_def splice_insert splice_delete_inserted)

theorem insert_then_remove_restores_witness:
  "(0::int) \<le> 1 \<and> 1 \<le> int (length [JNum 10, JNum 20]) \<and>
   fst (ops_add [JNum 10, JNum 20] 1 (JNum 15)) = [JNum 10, JNum 15, JNum 20] \<and>
   ops_remove (fst (ops_add [JNum 10, JNum 20] 1 (JNum 15))) 1 = ([JNum 10, JNum 20], [JNum 15])"
proof -
  have a: "(0::int) \<le> 1" by simp
  have b: "1 \<le> int (length [JNum 10, JNum 20])" by simp
  have c: "fst (ops_add [JNum 10, JNum 20] 1 (JNum 15)) = [JNum 10, JNum 15, JNum 20]"
    by (simp add: ops_add_def splice_def)
  from a b c insert_then_remove_restores [OF a b, of "JNum 15"] show ?thesis by simp
qed

section \<open>Basic facts about the world and the controller\<close>

lemma get_value_simps [simp]:
  "get_value a (w\<lparr>promises := ps\<rparr>) = get_value a w"
  "get_value a (w\<lparr>subs := ss\<rparr>) = get_value a w"
  "get_value a (w\<lparr>live := l\<rparr>) = get_value a w"
  "get_value a (w\<lparr>unbind_calls := u\<rparr>) = get_value a w"
  "get_value a (set_value b v w) = (if a = b then v else get_value a w)"
  by (simp_all add: get_value_def set_value_def)

lemma set_value_fields [simp]:
  "next_addr (set_value a v w) = next_addr w"
  "promises (set_value a v w) = promises w"
  "subs (set_value a v w) = subs w"
  "live (set_value a v w) = live w"
  "unbind_calls (set_value a v w) = unbind_calls w"
  "props (cells (set_value a v w) b) = props (cells w b)"
  by (simp_all add: set_value_def)

lemma ref_fields [simp]:
  "fst (ref v w) = next_addr w"
  "next_addr (snd (ref v w)) = Suc (next_addr w)"
  "promises (snd (ref v w)) = promises w"
  "subs (snd (ref v w)) = subs w"
  "live (snd (ref v w)) = live w"
  "unbind_calls (snd (ref v w)) = unbind_calls w"
  "get_value a (snd (ref v w)) = (if a = next_addr w then v else get_value a w)"
  "get_property a k (snd (ref v w)) = (if a = next_addr w then None else get_property a k w)"
  by (simp_all add: ref_def get_value_def get_property_def)

lemma unref_promises [simp]: "unref rf (w\<lparr>promises := ps\<rparr>) = unref rf w"
  by (cases rf) simp_all

lemma apply_reset_fields [simp]:
  "next_addr (apply_reset s r w) = next_addr w"
  "promises (apply_reset s r w) = promises w"
  "subs (apply_reset s r w) = subs w"
  "live (apply_reset s r w) = live w"
  "unbind_calls (apply_reset s r w) = unbind_calls w"
  "props (cells (apply_reset s r w) b) = props (cells w b)"
  by (cases "(s, r, w)" rule: apply_reset.cases; simp)+

lemma invoke_fields [simp]:
  "next_addr (invoke h r w) = next_addr w"
  "promises (invoke h r w) = promises w"
  "subs (invoke h r w) = subs w"
  "live (invoke (Unbind s) r w) = live w - {s}"
  "unbind_calls (invoke h r w) = unbind_calls w @ [(h, r)]"
  "props (cells (invoke h r w) b) = props (cells w b)"
  by (cases h; simp add: Let_def)+

declare invoke.simps [simp del]

lemma defineProperties_fields [simp]:
  "next_addr (snd (defineProperties a ps w)) = next_addr w"
  "promises (snd (defineProperties a ps w)) = promises w"
  "subs (snd (defineProperties a ps w)) = subs w"
  "live (snd (defineProperties a ps w)) = live w"
  "unbind_calls (snd (defineProperties a ps w)) = unbind_calls w"
  "get_value b (snd (defineProperties a ps w)) = get_value b w"
  by (induction a ps w rule: defineProperties.induct; simp add: get_value_def)+

lemma stop_fields [simp]:
  "reference (stop s c) = reference c" "options (stop s c) = options c"
  "data (stop s c) = data c" "error (stop s c) = error c" "pending (stop s c) = pending c"
  "promise (stop s c) = promise c" "createdPromises (stop s c) = createdPromises c"
  "hasCurrentScope (stop s c) = hasCurrentScope c" "priv_unbind (stop s c) = priv_unbind c"
  "stopWatcher (stop s c) = stopWatcher c" "oldValue (stop s c) = oldValue c"
  "scope_disposed (stop s c) = scope_disposed c"
  "watching (stop s c) = (s = Noop \<and> watching c)"
  by (cases s; simp)+

text \<open>One bind attempt, as a change of the closure and of the world.\<close>

lemma bindDatabaseRef_ctl:
  "fst (bindDatabaseRef c w) =
     c\<lparr>priv_unbind := Some (Unbind (length (subs w))),
       createdPromises := createdPromises c @ [length (promises w)]\<rparr>"
  by (simp add: bindDatabaseRef_def Let_def bindAsArray_def bindAsObject_def attach_def)

lemma bindDatabaseRef_world:
  "snd (bindDatabaseRef c w) =
     set_value (promise c) (JPromise (length (promises w)))
       (w\<lparr>promises := promises w @ [Pending],
          subs := subs w @
            [\<lparr>sub_kind = (if isArray (get_value (data c) w) then AsArray else AsObject),
              sub_target = data c, sub_source = unref (reference c) w,
              sub_promise = length (promises w)\<rparr>],
          live := insert (length (subs w)) (live w)\<rparr>)"
  by (simp add: bindDatabaseRef_def Let_def bindAsArray_def bindAsObject_def attach_def)

lemma bindDatabaseRef_cells:
  "cells_distinct c \<Longrightarrow>
   get_value (pending c) (snd (bindDatabaseRef c w)) = get_value (pending c) w \<and>
   get_value (error c) (snd (bindDatabaseRef c w)) = get_value (error c) w \<and>
   get_value (promise c) (snd (bindDatabaseRef c w)) = JPromise (length (promises w))"
  by (simp add: bindDatabaseRef_world cells_distinct_def)

lemma reference_set_ctl:
  "fst (reference_set v c w) =
     (case reference c of
        Plain _ \<Rightarrow> c
      | Reactive a \<Rightarrow>
          if watching c \<and> v \<noteq> oldValue c
          then c\<lparr>oldValue := v, priv_unbind := Some (Unbind (length (subs w))),
                 createdPromises := createdPromises c @ [length (promises w)]\<rparr>
          else c)"
  by (simp add: reference_set_def Let_def bindDatabaseRef_ctl split: reference.splits)

lemma reference_set_world:
  "snd (reference_set v c w) =
     (case reference c of
        Plain _ \<Rightarrow> w
      | Reactive a \<Rightarrow>
          if watching c \<and> v \<noteq> oldValue c
          then snd (bindDatabaseRef (c\<lparr>oldValue := v\<rparr>) (set_value a v w))
          else set_value a v w)"
  by (simp add: reference_set_def Let_def split: reference.splits)

text \<open>A settlement, cell by cell.\<close>

lemma settle_fields [simp]:
  "subs (settle p out c w) = subs w" "live (settle p out c w) = live w"
  "unbind_calls (settle p out c w) = unbind_calls w"
  by (simp_all add: settle_def on_finally_def on_rejected_def Let_def split: outcome.splits)

lemma settle_promise_cell:
  "cells_distinct c \<Longrightarrow> get_value (promise c) (settle p out c w) = get_value (promise c) w"
  by (auto simp: settle_def on_finally_def on_rejected_def cells_distinct_def Let_def
      split: outcome.splits)

lemma settle_pending_cell:
  "cells_distinct c \<Longrightarrow>
   get_value (pending c) (settle p out c w) =
     (if p < length (promises w) \<and> promises w ! p = Pending \<and> p \<in> set (createdPromises c)
      then JBool False else get_value (pending c) w)"
  by (auto simp: settle_def on_finally_def on_rejected_def cells_distinct_def Let_def
      split: outcome.splits)

lemma settle_error_cell:
  "cells_distinct c \<Longrightarrow>
   get_value (error c) (settle p out c w) =
     (if p < length (promises w) \<and> promises w ! p = Pending \<and> p \<in> set (createdPromises c)
      then (case out of Resolve v \<Rightarrow> get_value (error c) w | Reject r \<Rightarrow> r)
      else get_value (error c) w)"
  by (auto simp: settle_def on_finally_def on_rejected_def cells_distinct_def Let_def
      split: outcome.splits)

lemma settle_promises:
  "promises (settle p out c w) =
     (if p < length (promises w) \<and> promises w ! p = Pending
      then (promises w)[p := (case out of Resolve v \<Rightarrow> Fulfilled v | Reject r \<Rightarrow> Rejected r)]
      else promises w)"
  by (simp add: settle_def on_finally_def on_rejected_def Let_def split: outcome.splits)

lemma settle_other_cell:
  "a \<noteq> pending c \<Longrightarrow> a \<noteq> error c \<Longrightarrow> get_value a (settle p out c w) = get_value a w"
  by (simp add: settle_def on_finally_def on_rejected_def Let_def split: outcome.splits)

lemma step_alt:
  "step (Settle p out) s = Inr (fst s, settle p out (fst s) (snd s))"
  "step (ReferenceSet v) s = Inr (reference_set v (fst s) (snd s))"
  "step CallUnbind s = unbind (fst s) (snd s)"
  "step ScopeDispose s = dispose_scope (fst s) (snd s)"
  by (cases s; simp)+

section \<open>Construction\<close>

lemmas construct_defs =
  useDatabaseRef_def useList_def useObject_def spread_def no_options_def ref_def watch_def
  descriptors_def empty_world_def empty_cell_def Let_def get_property_def
  bindDatabaseRef_def bindAsArray_def bindAsObject_def attach_def get_value_def set_value_def

lemma useDatabaseRef_inv: "ctl_inv rf opts scope (closure_of (useDatabaseRef rf opts scope w))"
  by (cases rf; cases "target opts")
    (simp_all add: useDatabaseRef_def watch_def Let_def split_beta bindDatabaseRef_ctl
      ctl_inv_def cells_distinct_def)

lemma useDatabaseRef_first_bind:
  "case useDatabaseRef rf opts scope w of (r, c, w1) \<Rightarrow>
     (\<exists>s. subs w1 = subs w @ [s] \<and>
        sub_source s = (case rf of Plain v \<Rightarrow> v | Reactive a \<Rightarrow> oldValue c) \<and>
        createdPromises c = [sub_promise s]) \<and>
     watching c = (case rf of Plain v \<Rightarrow> False | Reactive a \<Rightarrow> True) \<and>
     (\<forall>a. rf = Reactive a \<and> a < next_addr w \<longrightarrow> oldValue c = get_value a w)"
  by (cases rf; cases "target opts")
    (simp_all add: useDatabaseRef_def watch_def Let_def split_beta bindDatabaseRef_ctl
      bindDatabaseRef_world)

lemma useDatabaseRef_initial_state:
  "get_value (pending (closure_of (useDatabaseRef rf opts scope w0)))
     (world_of (useDatabaseRef rf opts scope w0)) = JBool True \<and>
   get_value (error (closure_of (useDatabaseRef rf opts scope w0)))
     (world_of (useDatabaseRef rf opts scope w0)) = JUndefined \<and>
   get_value (promise (closure_of (useDatabaseRef rf opts scope w0)))
     (world_of (useDatabaseRef rf opts scope w0)) = JPromise (length (promises w0))"
  by (cases rf; cases "target opts")
    (simp_all add: useDatabaseRef_def watch_def Let_def split_beta bindDatabaseRef_ctl
      bindDatabaseRef_world)

lemma useDatabaseRef_target_cell:
  assumes "target opts = TargetCell a" and "a < next_addr w"
  shows "case useDatabaseRef rf opts scope w of (r, c, w') \<Rightarrow>
     data c = a \<and> get_value a w' = get_value a w \<and>
     map sub_kind (drop (length (subs w)) (subs w'))
       = [if isArray (get_value a w) then AsArray else AsObject] \<and>
     map sub_target (drop (length (subs w)) (subs w')) = [a] \<and>
     (list_all (\<lambda>k. get_property a k w = None) accessor_keys \<longrightarrow> r = Inr a)"
  using assms by (cases rf) (simp_all add: construct_defs accessor_keys_def split: prod.splits)

lemma spread_no_key: "no_target_key opts \<Longrightarrow> target (spread d opts) = TargetCell d"
  by (simp add: spread_def no_target_key_def no_options_def split: option.splits)

lemma spread_target_cell: "target ops = TargetCell a \<Longrightarrow> spread d (Some ops) = ops"
  by (simp add: spread_def)

section \<open>Invariants of a running controller\<close>

lemma step_inv:
  assumes "ctl_inv rf opts scope c" and "step ev (c, w) = Inr (c', w')"
  shows "ctl_inv rf opts scope c'"
proof (cases ev)
  case (Settle p out)
  with assms show ?thesis by simp
next
  case (ReferenceSet v)
  with assms have "c' = fst (reference_set v c w)" by simp
  with assms(1) show ?thesis
    by (auto simp: reference_set_ctl ctl_inv_def cells_distinct_def split: reference.splits)
next
  case CallUnbind
  with assms show ?thesis
    by (auto simp: unbind_def call_priv_unbind_def Let_def ctl_inv_def cells_distinct_def
        split: option.splits)
next
  case ScopeDispose
  with assms show ?thesis
    by (auto simp: dispose_scope_def scope_teardown_def call_priv_unbind_def ctl_inv_def
        cells_distinct_def split: option.splits if_splits)
qed

text \<open>No event makes a constructed controller throw.\<close>

lemma step_total:
  assumes "ctl_inv rf opts scope c"
  shows "\<exists>c' w'. step ev (c, w) = Inr (c', w')"
proof (cases ev)
  case (ReferenceSet v)
  then show ?thesis by (cases "reference_set v c w") simp
next
  case CallUnbind
  with assms show ?thesis
    by (auto simp: unbind_def call_priv_unbind_def Let_def ctl_inv_def)
next
  case ScopeDispose
  with assms show ?thesis
    by (auto simp: dispose_scope_def scope_teardown_def call_priv_unbind_def ctl_inv_def)
qed simp

lemma run_inv:
  "ctl_inv rf opts scope c \<Longrightarrow> run evs (c, w) = Inr (c', w') \<Longrightarrow> ctl_inv rf opts scope c'"
proof (induction evs arbitrary: c w)
  case Nil
  then show ?case by simp
next
  case (Cons ev evs)
  from step_total [OF Cons.prems(1), of ev w] obtain c1 w1 where s: "step ev (c, w) = Inr (c1, w1)"
    by blast
  from step_inv [OF Cons.prems(1) s] Cons.IH [of c1 w1] Cons.prems(2) s show ?case by simp
qed

lemma reachable_inv:
  "run evs (snd (useDatabaseRef rf opts scope w0)) = Inr (c, w) \<Longrightarrow> ctl_inv rf opts scope c"
  using run_inv [OF useDatabaseRef_inv, of evs rf opts scope w0
      "world_of (useDatabaseRef rf opts scope w0)" c w]
  by simp

lemma step_addresses:
  assumes "step ev (c, w) = Inr (c', w')"
  shows "data c' = data c \<and> error c' = error c \<and> pending c' = pending c \<and> promise c' = promise c"
proof (cases ev)
  case (Settle p out)
  with assms show ?thesis by auto
next
  case (ReferenceSet v)
  with assms have "c' = fst (reference_set v c w)" by simp
  then show ?thesis by (simp add: reference_set_ctl split: reference.splits)
next
  case CallUnbind
  with assms show ?thesis
    by (auto simp: unbind_def Let_def split: sum.splits)
next
  case ScopeDispose
  with assms show ?thesis
    by (auto simp: dispose_scope_def scope_teardown_def split: sum.splits if_splits)
qed

lemma run_addresses:
  "run evs (c, w) = Inr (c', w') \<Longrightarrow>
   data c' = data c \<and> error c' = error c \<and> pending c' = pending c \<and> promise c' = promise c"
proof (induction evs arbitrary: c w)
  case Nil
  then show ?case by simp
next
  case (Cons ev evs)
  then obtain c1 w1 where s: "step ev (c, w) = Inr (c1, w1)" and r: "run evs (c1, w1) = Inr (c', w')"
    by (auto split: sum.splits)
  from step_addresses [OF s] Cons.IH [OF r] show ?case by simp
qed

section \<open>The bind attempts of a run\<close>

text \<open>
  Each event adds at most one listener; an assignment adds one exactly when the watcher is
  running and sees a value different from the one it saw last.
\<close>

lemma step_sources:
  assumes "ctl_inv rf opts scope c"
  shows "\<exists>c1 w1 e1. step ev (c, w) = Inr (c1, w1) \<and> ctl_inv rf opts scope c1 \<and>
      subs w1 = subs w @ e1 \<and>
      createdPromises c1 = createdPromises c @ map sub_promise e1 \<and>
      (case ev of
         ReferenceSet v \<Rightarrow>
           watching c1 = watching c \<and>
           (if watching c \<and> v \<noteq> oldValue c
            then map sub_source e1 = [v] \<and> oldValue c1 = v
            else e1 = [] \<and> oldValue c1 = oldValue c)
       | Settle p out \<Rightarrow> e1 = [] \<and> watching c1 = watching c \<and> oldValue c1 = oldValue c
       | CallUnbind \<Rightarrow> e1 = [] \<and> \<not> watching c1
       | ScopeDispose \<Rightarrow> e1 = [] \<and> (if scope then \<not> watching c1 else c1 = c))"
proof -
  from step_total [OF assms, of ev w] obtain c1 w1 where s: "step ev (c, w) = Inr (c1, w1)"
    by blast
  have i: "ctl_inv rf opts scope c1" by (rule step_inv [OF assms s])
  show ?thesis
  proof (cases ev)
    case (Settle p out)
    with s i show ?thesis by auto
  next
    case (ReferenceSet v)
    with s have c1: "c1 = fst (reference_set v c w)" and w1: "w1 = snd (reference_set v c w)"
      by simp_all
    show ?thesis
    proof (cases "reference c")
      case (Plain x)
      with assms have "\<not> watching c" by (auto simp: ctl_inv_def)
      with s i ReferenceSet Plain c1 w1 show ?thesis
        by (simp add: reference_set_ctl reference_set_world)
    next
      case (Reactive a)
      with s i ReferenceSet c1 w1 show ?thesis
        by (simp add: reference_set_ctl reference_set_world bindDatabaseRef_world)
    qed
  next
    case CallUnbind
    with s i assms show ?thesis
      by (auto simp: unbind_def call_priv_unbind_def Let_def ctl_inv_def split: option.splits
          reference.splits)
  next
    case ScopeDispose
    with s i assms show ?thesis
      by (auto simp: dispose_scope_def scope_teardown_def call_priv_unbind_def ctl_inv_def
          split: option.splits if_splits)
  qed
qed

lemma run_sources:
  assumes "ctl_inv rf opts scope c"
  shows "\<exists>c' w' ext. run evs (c, w) = Inr (c', w') \<and> subs w' = subs w @ ext \<and>
      map sub_source ext
        = (if watching c then tl (remdups_adj (oldValue c # observed scope evs)) else []) \<and>
      createdPromises c' = createdPromises c @ map sub_promise ext"
  using assms
proof (induction evs arbitrary: c w)
  case Nil
  then show ?case by simp
next
  case (Cons ev evs)
  from step_sources [OF Cons.prems, of ev w] obtain c1 w1 e1 where
    s: "step ev (c, w) = Inr (c1, w1)" and i: "ctl_inv rf opts scope c1" and
    e: "subs w1 = subs w @ e1" and
    l: "createdPromises c1 = createdPromises c @ map sub_promise e1" and
    k: "case ev of
         ReferenceSet v \<Rightarrow>
           watching c1 = watching c \<and>
           (if watching c \<and> v \<noteq> oldValue c
            then map sub_source e1 = [v] \<and> oldValue c1 = v
            else e1 = [] \<and> oldValue c1 = oldValue c)
       | Settle p out \<Rightarrow> e1 = [] \<and> watching c1 = watching c \<and> oldValue c1 = oldValue c
       | CallUnbind \<Rightarrow> e1 = [] \<and> \<not> watching c1
       | ScopeDispose \<Rightarrow> e1 = [] \<and> (if scope then \<not> watching c1 else c1 = c)"
    by blast
  from Cons.IH [OF i, of w1] obtain c' w' ext where
    r: "run evs (c1, w1) = Inr (c', w')" and e': "subs w' = subs w1 @ ext" and
    m: "map sub_source ext
        = (if watching c1 then tl (remdups_adj (oldValue c1 # observed scope evs)) else [])" and
    l': "createdPromises c' = createdPromises c1 @ map sub_promise ext"
    by blast
  have "run (ev # evs) (c, w) = Inr (c', w')" using s r by simp
  moreover have "subs w' = subs w @ (e1 @ ext)" using e e' by simp
  moreover have "createdPromises c' = createdPromises c @ map sub_promise (e1 @ ext)"
    using l l' by simp
  moreover have "map sub_source (e1 @ ext)
        = (if watching c then tl (remdups_adj (oldValue c # observed scope (ev # evs))) else [])"
    using k m by (cases ev) (auto split: if_splits)
  ultimately show ?case by blast
qed


section \<open>The example runs, evaluated\<close>

lemma demo_world_eval:
  "next_addr demo_world = 1" "subs demo_world = []" "promises demo_world = []"
  "live demo_world = {}" "unbind_calls demo_world = []" "get_value 0 demo_world = JSource 1"
  "get_property 0 k demo_world = None"
  by (simp_all add: demo_world_def ref_def empty_world_def get_value_def get_property_def)

lemma demo_start_eval:
  "fst demo_start = \<lparr>reference = Reactive 0, options = no_options, data = 1, error = 2, pending = 3,
      promise = 4, createdPromises = [0], hasCurrentScope = True, priv_unbind = Some (Unbind 0),
      stopWatcher = StopWatch, watching = True, oldValue = JSource 1, scope_disposed = False\<rparr>"
  "promises (snd demo_start) = [Pending]"
  "subs (snd demo_start) = [\<lparr>sub_kind = AsObject, sub_target = 1, sub_source = JSource 1, sub_promise = 0\<rparr>]"
  "live (snd demo_start) = {0}"
  "unbind_calls (snd demo_start) = []"
  "get_value 0 (snd demo_start) = JSource 1"
  "get_value 1 (snd demo_start) = JUndefined"
  "get_value 2 (snd demo_start) = JUndefined"
  "get_value 3 (snd demo_start) = JBool True"
  "get_value 4 (snd demo_start) = JPromise 0"
  by (simp_all add: demo_start_def demo_world_def construct_defs)

lemma demo_start_run:
  "run [] (snd (useDatabaseRef (Reactive 0) no_options True demo_world))
     = Inr (fst demo_start, snd demo_start)"
  by (simp add: demo_start_def)

lemma demo_start_distinct: "cells_distinct (fst demo_start)"
  using demo_start_eval(1) by (simp add: cells_distinct_def)

lemma demo_rebound_eval:
  "fst demo_rebound = \<lparr>reference = Reactive 0, options = no_options, data = 1, error = 2, pending = 3,
      promise = 4, createdPromises = [0, 1], hasCurrentScope = True, priv_unbind = Some (Unbind 1),
      stopWatcher = StopWatch, watching = True, oldValue = JSource 2, scope_disposed = False\<rparr>"
  "promises (snd demo_rebound) = [Pending, Pending]"
  "subs (snd demo_rebound) =
     [\<lparr>sub_kind = AsObject, sub_target = 1, sub_source = JSource 1, sub_promise = 0\<rparr>,
      \<lparr>sub_kind = AsObject, sub_target = 1, sub_source = JSource 2, sub_promise = 1\<rparr>]"
  "live (snd demo_rebound) = {0, 1}"
  "unbind_calls (snd demo_rebound) = []"
  "get_value 0 (snd demo_rebound) = JSource 2"
  "get_value 1 (snd demo_rebound) = JUndefined"
  "get_value 2 (snd demo_rebound) = JUndefined"
  "get_value 3 (snd demo_rebound) = JBool True"
  "get_value 4 (snd demo_rebound) = JPromise 1"
  using demo_start_eval
  by (auto simp add: demo_rebound_def reference_set_ctl reference_set_world bindDatabaseRef_world)

lemma demo_rebound_run:
  "run [ReferenceSet (JSource 2)] (snd (useDatabaseRef (Reactive 0) no_options True demo_world))
     = Inr (fst demo_rebound, snd demo_rebound)"
  by (simp add: step_alt demo_rebound_def demo_start_def)

lemma demo_toggled_run:
  "demo_toggled = Inr (reference_set (JSource 1) (fst demo_rebound) (snd demo_rebound))"
  by (simp add: demo_toggled_def step_alt demo_rebound_def)

lemma demo_toggled_eval:
  "\<not> isl demo_toggled"
  "createdPromises (fst (projr demo_toggled)) = [0, 1, 2]"
  "map sub_source (subs (snd (projr demo_toggled))) = [JSource 1, JSource 2, JSource 1]"
  using demo_rebound_eval
  by (simp_all add: demo_toggled_run reference_set_ctl reference_set_world bindDatabaseRef_world)

lemma demo_disposed_run:
  "demo_disposed = Inr (reference_set (JSource 2)
      ((fst demo_start)\<lparr>watching := False, scope_disposed := True\<rparr>)
      (invoke (Unbind 0) ResetUndefined (snd demo_start)))"
  using demo_start_eval(1)
  by (simp add: demo_disposed_def step_alt dispose_scope_def scope_teardown_def
      call_priv_unbind_def no_options_def)

lemma demo_disposed_eval:
  "\<not> isl demo_disposed"
  "createdPromises (fst (projr demo_disposed)) = [0]"
  "watching (fst (projr demo_disposed)) = False"
  "length (subs (snd (projr demo_disposed))) = 1"
  "promises (snd (projr demo_disposed)) = [Pending]"
  "unbind_calls (snd (projr demo_disposed)) = [(Unbind 0, ResetUndefined)]"
  "get_value 0 (snd (projr demo_disposed)) = JSource 2"
  using demo_start_eval
  by (simp_all add: demo_disposed_run reference_set_ctl reference_set_world)

lemma demo_resolved_rebound_run:
  "demo_resolved_rebound = Inr (reference_set (JSource 2) (fst demo_start)
      (settle 0 (Resolve JNull) (fst demo_start) (snd demo_start)))"
  by (simp add: demo_resolved_rebound_def step_alt)

lemma demo_resolved_rebound_eval:
  "\<not> isl demo_resolved_rebound"
  "createdPromises (fst (projr demo_resolved_rebound)) = [0, 1]"
  "promises (snd (projr demo_resolved_rebound)) = [Fulfilled JNull, Pending]"
  "get_value 4 (snd (projr demo_resolved_rebound)) = JPromise 1"
  "get_value 3 (snd (projr demo_resolved_rebound)) = JBool False"
  using demo_start_eval settle_pending_cell [OF demo_start_distinct, of 0 "Resolve JNull" "snd demo_start"]
  by (simp_all add: demo_resolved_rebound_run reference_set_ctl reference_set_world
      bindDatabaseRef_world settle_promises)

lemma demo_rejected_resolved_eval:
  "\<not> isl demo_rejected_resolved"
  "createdPromises (fst (projr demo_rejected_resolved)) = [0, 1]"
  "promises (snd (projr demo_rejected_resolved)) = [Rejected (JError ''denied''), Fulfilled JNull]"
  "get_value 4 (snd (projr demo_rejected_resolved)) = JPromise 1"
  "get_value 3 (snd (projr demo_rejected_resolved)) = JBool False"
  "get_value 2 (snd (projr demo_rejected_resolved)) = JError ''denied''"
proof -
  let ?c = "fst demo_start"
  let ?w1 = "settle 0 (Reject (JError ''denied'')) ?c (snd demo_start)"
  let ?s2 = "reference_set (JSource 2) ?c ?w1"
  have r: "demo_rejected_resolved = Inr (fst ?s2, settle 1 (Resolve JNull) (fst ?s2) (snd ?s2))"
    by (simp add: demo_rejected_resolved_def step_alt)
  have w1: "promises ?w1 = [Rejected (JError ''denied'')]" "get_value 2 ?w1 = JError ''denied''"
    "get_value 3 ?w1 = JBool False" "get_value 4 ?w1 = JPromise 0" "subs ?w1 = subs (snd demo_start)"
    using demo_start_eval settle_pending_cell [OF demo_start_distinct, of 0 _ "snd demo_start"]
      settle_error_cell [OF demo_start_distinct, of 0 _ "snd demo_start"]
    by (simp_all add: settle_promises settle_other_cell)
  have c2: "fst ?s2 = ?c\<lparr>oldValue := JSource 2, priv_unbind := Some (Unbind 1),
      createdPromises := [0, 1]\<rparr>"
    using demo_start_eval w1 by (simp add: reference_set_ctl)
  have d2: "cells_distinct (fst ?s2)" "error (fst ?s2) = 2" "pending (fst ?s2) = 3"
    "promise (fst ?s2) = 4" "createdPromises (fst ?s2) = [0, 1]"
    unfolding c2 by (simp_all add: cells_distinct_def demo_start_eval(1))
  have w2: "promises (snd ?s2) = [Rejected (JError ''denied''), Pending]"
    "get_value 2 (snd ?s2) = JError ''denied''" "get_value 3 (snd ?s2) = JBool False"
    "get_value 4 (snd ?s2) = JPromise 1"
    using demo_start_eval(1) w1 by (simp_all add: reference_set_world bindDatabaseRef_world)
  show "\<not> isl demo_rejected_resolved" by (simp add: r)
  show "createdPromises (fst (projr demo_rejected_resolved)) = [0, 1]"
    by (simp add: r d2)
  show "promises (snd (projr demo_rejected_resolved)) = [Rejected (JError ''denied''), Fulfilled JNull]"
    using w2 by (simp add: r settle_promises)
  show "get_value 4 (snd (projr demo_rejected_resolved)) = JPromise 1"
    using w2 d2 settle_promise_cell [OF d2(1), of 1 "Resolve JNull" "snd ?s2"] by (simp add: r)
  show "get_value 3 (snd (projr demo_rejected_resolved)) = JBool False"
    using w2 d2 settle_pending_cell [OF d2(1), of 1 "Resolve JNull" "snd ?s2"] by (simp add: r)
  show "get_value 2 (snd (projr demo_rejected_resolved)) = JError ''denied''"
    using w2 d2 settle_error_cell [OF d2(1), of 1 "Resolve JNull" "snd ?s2"] by (simp add: r)
qed

section \<open>Settlements and rebinds\<close>

text \<open>
  Claim C1 (as amended): in every state a controller reaches, a settlement of one of its
  promises leaves \<open>promise\<close> as it is and never sets \<open>pending\<close> to true; the settlement of
  a superseded attempt that is still pending sets \<open>pending\<close> to false, leaves \<open>error\<close>
  as it is when it is a resolution and overwrites \<open>error\<close> with its reason when it is a
  rejection.
\<close>

theorem superseded_settlement:
  assumes "run evs (snd (useDatabaseRef rf opts scope w0)) = Inr (c, w)"
  shows "get_value (promise c) (settle p out c w) = get_value (promise c) w \<and>
     (get_value (pending c) (settle p out c w) = get_value (pending c) w \<or>
      get_value (pending c) (settle p out c w) = JBool False) \<and>
     (p \<in> set (createdPromises c) \<and> p < length (promises w) \<and> promises w ! p = Pending \<and>
      get_value (promise c) w \<noteq> JPromise p \<longrightarrow>
        get_value (pending c) (settle p out c w) = JBool False \<and>
        get_value (error c) (settle p out c w)
          = (case out of Resolve v \<Rightarrow> get_value (error c) w | Reject r \<Rightarrow> r))"
proof -
  from reachable_inv [OF assms] have "cells_distinct c" by (simp add: ctl_inv_def)
  then show ?thesis by (simp add: settle_promise_cell settle_pending_cell settle_error_cell)
qed

theorem superseded_settlement_witness:
  "run [ReferenceSet (JSource 2)] (snd (useDatabaseRef (Reactive 0) no_options True demo_world))
     = Inr (fst demo_rebound, snd demo_rebound) \<and>
   0 \<in> set (createdPromises (fst demo_rebound)) \<and>
   0 < length (promises (snd demo_rebound)) \<and>
   promises (snd demo_rebound) ! 0 = Pending \<and>
   get_value (promise (fst demo_rebound)) (snd demo_rebound) \<noteq> JPromise 0 \<and>
   get_value (promise (fst demo_rebound))
     (settle 0 (Resolve JNull) (fst demo_rebound) (snd demo_rebound)) = JPromise 1 \<and>
   get_value (pending (fst demo_rebound))
     (settle 0 (Resolve JNull) (fst demo_rebound) (snd demo_rebound)) = JBool False \<and>
   get_value (error (fst demo_rebound))
     (settle 0 (Resolve JNull) (fst demo_rebound) (snd demo_rebound)) = JUndefined"
  using superseded_settlement [OF demo_rebound_run, of 0 "Resolve JNull"] demo_rebound_run
    demo_rebound_eval
  by simp

text \<open>
  Claim C1 as stated fails: after the reference cell was assigned a new reference, the first
  attempt is superseded (\<open>promise\<close> holds the second promise) while its listener is still
  attached; its rejection then changes \<open>error\<close> from \<open>undefined\<close> to the stale failure and
  \<open>pending\<close> from true to false, and its resolution changes \<open>pending\<close> to false while the
  current attempt is still pending.
\<close>

theorem superseded_settlement_counterexample:
  "run [ReferenceSet (JSource 2)] (snd (useDatabaseRef (Reactive 0) no_options True demo_world))
     = Inr (fst demo_rebound, snd demo_rebound) \<and>
   createdPromises (fst demo_rebound) = [0, 1] \<and>
   get_value (promise (fst demo_rebound)) (snd demo_rebound) = JPromise 1 \<and>
   promises (snd demo_rebound) ! 0 = Pending \<and>
   0 \<in> live (snd demo_rebound) \<and>
   get_value (error (fst demo_rebound)) (snd demo_rebound) = JUndefined \<and>
   get_value (pending (fst demo_rebound)) (snd demo_rebound) = JBool True \<and>
   get_value (error (fst demo_rebound))
     (settle 0 (Reject (JError ''denied'')) (fst demo_rebound) (snd demo_rebound))
     = JError ''denied'' \<and>
   get_value (pending (fst demo_rebound))
     (settle 0 (Reject (JError ''denied'')) (fst demo_rebound) (snd demo_rebound)) = JBool False \<and>
   get_value (pending (fst demo_rebound))
     (settle 0 (Resolve JNull) (fst demo_rebound) (snd demo_rebound)) = JBool False \<and>
   promises (settle 0 (Resolve JNull) (fst demo_rebound) (snd demo_rebound)) ! 1 = Pending"
  using demo_rebound_eval demo_rebound_run
  by (simp add: settle_def on_rejected_def on_finally_def)

text \<open>
  Claim C2 (as amended): when a change of a reactive-cell reference triggers a rebind, the
  new listener is attached and its unbind procedure becomes the current one, no unbind
  procedure is called, and every listener attached before stays attached: the listener
  of the prior attempt goes on writing to the same container.
\<close>

theorem rebind_keeps_prior_subscription:
  assumes "reference c = Reactive a" and "watching c" and "v \<noteq> oldValue c"
  shows "unbind_calls (snd (reference_set v c w)) = unbind_calls w \<and>
     live (snd (reference_set v c w)) = insert (length (subs w)) (live w) \<and>
     priv_unbind (fst (reference_set v c w)) = Some (Unbind (length (subs w))) \<and>
     take (length (subs w)) (subs (snd (reference_set v c w))) = subs w \<and>
     map sub_target (drop (length (subs w)) (subs (snd (reference_set v c w)))) = [data c] \<and>
     map sub_source (drop (length (subs w)) (subs (snd (reference_set v c w)))) = [v]"
  using assms by (simp add: reference_set_ctl reference_set_world bindDatabaseRef_world)

theorem rebind_keeps_prior_subscription_witness:
  "reference (fst demo_start) = Reactive 0 \<and> watching (fst demo_start) \<and>
   JSource 2 \<noteq> oldValue (fst demo_start) \<and>
   live (snd demo_start) = {0} \<and>
   unbind_calls (snd (reference_set (JSource 2) (fst demo_start) (snd demo_start))) = [] \<and>
   live (snd (reference_set (JSource 2) (fst demo_start) (snd demo_start))) = {0, 1} \<and>
   priv_unbind (fst (reference_set (JSource 2) (fst demo_start) (snd demo_start)))
     = Some (Unbind 1)"
proof -
  have h: "reference (fst demo_start) = Reactive 0" "watching (fst demo_start)"
    "JSource 2 \<noteq> oldValue (fst demo_start)"
    by (simp_all add: demo_start_eval(1))
  from rebind_keeps_prior_subscription [OF h, of "snd demo_start"] h demo_start_eval(3-5)
  show ?thesis by auto
qed

text \<open>
  Claim C2 as stated fails: after one change of the reference both listeners are attached,
  both write to the container at address 1, and no unbind procedure has been called.
\<close>

theorem rebind_keeps_prior_subscription_counterexample:
  "demo_rebound = reference_set (JSource 2)
      (closure_of (useDatabaseRef (Reactive 0) no_options True demo_world))
      (world_of (useDatabaseRef (Reactive 0) no_options True demo_world)) \<and>
   live (snd demo_rebound) = {0, 1} \<and>
   map sub_target (subs (snd demo_rebound)) = [1, 1] \<and>
   data (fst demo_rebound) = 1 \<and>
   unbind_calls (snd demo_rebound) = [] \<and>
   priv_unbind (fst demo_rebound) = Some (Unbind 1)"
proof -
  have "demo_rebound = reference_set (JSource 2)
      (closure_of (useDatabaseRef (Reactive 0) no_options True demo_world))
      (world_of (useDatabaseRef (Reactive 0) no_options True demo_world))"
    unfolding demo_rebound_def demo_start_def by (rule refl)
  with demo_rebound_eval show ?thesis by simp
qed

section \<open>The state fields and the accessors\<close>

text \<open>
  Claim C3 fails on the code: the getter of \<open>pending\<close> (line 128) returns the \<open>error\<close> cell.
  For a controller constructed in the empty world the handle is the cell at address 0, the
  \<open>error\<close> cell is at address 1 and the \<open>pending\<close> cell at address 2; reading
  \<open>handle.pending\<close> gives the cell at address 1, the same cell as \<open>handle.error\<close>, whose
  value is \<open>undefined\<close> while the \<open>pending\<close> cell holds true.
\<close>

theorem pending_accessor_returns_error_cell:
  "fst (useDatabaseRef (Plain (JSource 1)) no_options False empty_world) = Inr 0 \<and>
   error (closure_of (useDatabaseRef (Plain (JSource 1)) no_options False empty_world)) = 1 \<and>
   pending (closure_of (useDatabaseRef (Plain (JSource 1)) no_options False empty_world)) = 2 \<and>
   get_property 0 ''pending''
     (world_of (useDatabaseRef (Plain (JSource 1)) no_options False empty_world))
     = Some (ReturnsCell 1) \<and>
   get_property 0 ''error''
     (world_of (useDatabaseRef (Plain (JSource 1)) no_options False empty_world))
     = Some (ReturnsCell 1) \<and>
   get_value 1 (world_of (useDatabaseRef (Plain (JSource 1)) no_options False empty_world))
     = JUndefined \<and>
   get_value 2 (world_of (useDatabaseRef (Plain (JSource 1)) no_options False empty_world))
     = JBool True"
  by (simp add: construct_defs)

text \<open>
  Claim C4 (as amended): \<open>pending\<close> is true and \<open>error\<close> is \<open>undefined\<close> when
  construction ends; in every state a controller reaches, a bind attempt changes neither
  \<open>pending\<close> nor \<open>error\<close>; and when a pending attempt settles, current or not, \<open>pending\<close>
  becomes false, a rejection stores its reason in \<open>error\<close> and a resolution leaves \<open>error\<close>
  as it is.
\<close>

theorem attempt_state_updates:
  assumes "run evs (snd (useDatabaseRef rf opts scope w0)) = Inr (c, w)"
  shows "get_value (pending c) (world_of (useDatabaseRef rf opts scope w0)) = JBool True \<and>
     get_value (error c) (world_of (useDatabaseRef rf opts scope w0)) = JUndefined \<and>
     get_value (pending c) (snd (bindDatabaseRef c w)) = get_value (pending c) w \<and>
     get_value (error c) (snd (bindDatabaseRef c w)) = get_value (error c) w \<and>
     (p \<in> set (createdPromises c) \<and> p < length (promises w) \<and> promises w ! p = Pending \<longrightarrow>
        get_value (error c) (settle p (Resolve v) c w) = get_value (error c) w \<and>
        get_value (error c) (settle p (Reject reason) c w) = reason \<and>
        get_value (pending c) (settle p (Resolve v) c w) = JBool False \<and>
        get_value (pending c) (settle p (Reject reason) c w) = JBool False)"
proof -
  from assms have r: "run evs (closure_of (useDatabaseRef rf opts scope w0),
      world_of (useDatabaseRef rf opts scope w0)) = Inr (c, w)" by simp
  from reachable_inv [OF assms] have d: "cells_distinct c" by (simp add: ctl_inv_def)
  from run_addresses [OF r] useDatabaseRef_initial_state [of rf opts scope w0]
  have "get_value (pending c) (world_of (useDatabaseRef rf opts scope w0)) = JBool True"
    "get_value (error c) (world_of (useDatabaseRef rf opts scope w0)) = JUndefined"
    by simp_all
  with d bindDatabaseRef_cells [OF d, of w] show ?thesis
    by (simp add: settle_pending_cell settle_error_cell)
qed

theorem attempt_state_updates_witness:
  "run [] (snd (useDatabaseRef (Reactive 0) no_options True demo_world))
     = Inr (fst demo_start, snd demo_start) \<and>
   0 \<in> set (createdPromises (fst demo_start)) \<and> 0 < length (promises (snd demo_start)) \<and>
   promises (snd demo_start) ! 0 = Pending \<and>
   get_value (pending (fst demo_start)) (snd demo_start) = JBool True \<and>
   get_value (error (fst demo_start))
     (settle 0 (Reject (JError ''denied'')) (fst demo_start) (snd demo_start)) = JError ''denied'' \<and>
   get_value (error (fst demo_start))
     (settle 0 (Resolve JNull) (fst demo_start) (snd demo_start)) = JUndefined \<and>
   get_value (pending (fst demo_start))
     (settle 0 (Resolve JNull) (fst demo_start) (snd demo_start)) = JBool False"
  using attempt_state_updates [OF demo_start_run, of 0 JNull "JError ''denied''"] demo_start_run
    demo_start_eval
  by simp

text \<open>
  Claim C4 as stated fails twice. After the first attempt has resolved, a change of the
  reference starts a second attempt, and \<open>pending\<close> is false while that attempt is pending
  and current. And after the first attempt has rejected, the second attempt resolves and
  \<open>error\<close> still holds the failure of the first.
\<close>

theorem attempt_state_updates_counterexample:
  "demo_resolved_rebound = run [Settle 0 (Resolve JNull), ReferenceSet (JSource 2)]
      (snd (useDatabaseRef (Reactive 0) no_options True demo_world)) \<and>
   \<not> isl demo_resolved_rebound \<and>
   createdPromises (fst (projr demo_resolved_rebound)) = [0, 1] \<and>
   promises (snd (projr demo_resolved_rebound)) ! 1 = Pending \<and>
   promise (fst (projr demo_resolved_rebound)) = 4 \<and>
   get_value 4 (snd (projr demo_resolved_rebound)) = JPromise 1 \<and>
   pending (fst (projr demo_resolved_rebound)) = 3 \<and>
   get_value 3 (snd (projr demo_resolved_rebound)) = JBool False \<and>
   demo_rejected_resolved =
     run [Settle 0 (Reject (JError ''denied'')), ReferenceSet (JSource 2), Settle 1 (Resolve JNull)]
       (snd (useDatabaseRef (Reactive 0) no_options True demo_world)) \<and>
   \<not> isl demo_rejected_resolved \<and>
   promises (snd (projr demo_rejected_resolved)) ! 1 = Fulfilled JNull \<and>
   get_value 4 (snd (projr demo_rejected_resolved)) = JPromise 1 \<and>
   error (fst (projr demo_rejected_resolved)) = 2 \<and>
   get_value 2 (snd (projr demo_rejected_resolved)) = JError ''denied''"
proof -
  have a: "demo_resolved_rebound = run [Settle 0 (Resolve JNull), ReferenceSet (JSource 2)]
      (snd (useDatabaseRef (Reactive 0) no_options True demo_world))"
    unfolding demo_resolved_rebound_def demo_start_def by (rule refl)
  have b: "demo_rejected_resolved =
     run [Settle 0 (Reject (JError ''denied'')), ReferenceSet (JSource 2), Settle 1 (Resolve JNull)]
       (snd (useDatabaseRef (Reactive 0) no_options True demo_world))"
    unfolding demo_rejected_resolved_def demo_start_def by (rule refl)
  have c: "promise (fst (projr demo_resolved_rebound)) = 4"
    "pending (fst (projr demo_resolved_rebound)) = 3"
    using demo_start_eval(1) by (simp_all add: demo_resolved_rebound_run reference_set_ctl)
  have d: "error (fst (projr demo_rejected_resolved)) = 2"
    using demo_start_eval(1)
    by (simp add: demo_rejected_resolved_def step_alt reference_set_ctl)
  from a b c d demo_resolved_rebound_eval demo_rejected_resolved_eval show ?thesis by simp
qed

section \<open>Entry points\<close>

text \<open>
  Claim C5 (as amended): for every call of \<open>useList\<close> whose options have no key \<open>target\<close>,
  the container is the entry point's new cell, it holds the empty sequence at the first
  bind and \<open>bindAsArray\<close> is chosen; for every such call of \<open>useObject\<close> it holds
  \<open>undefined\<close> and \<open>bindAsObject\<close> is chosen. When the caller's options carry an
  existing cell as \<open>target\<close>, that cell is the container for both entry points, and its
  current value chooses the bind function.
\<close>

theorem entry_point_containers:
  "(no_target_key opts \<longrightarrow>
      (case useList rf opts scope w of (r, c, w') \<Rightarrow>
         r = Inr (data c) \<and> data c = next_addr w \<and> get_value (data c) w' = JArr [] \<and>
         map sub_kind (drop (length (subs w)) (subs w')) = [AsArray] \<and>
         map sub_target (drop (length (subs w)) (subs w')) = [data c]) \<and>
      (case useObject rf opts scope w of (r, c, w') \<Rightarrow>
         r = Inr (data c) \<and> data c = next_addr w \<and> get_value (data c) w' = JUndefined \<and>
         map sub_kind (drop (length (subs w)) (subs w')) = [AsObject] \<and>
         map sub_target (drop (length (subs w)) (subs w')) = [data c])) \<and>
   (\<forall>ops a. opts = Some ops \<and> target ops = TargetCell a \<and> a < next_addr w \<longrightarrow>
      (case useList rf opts scope w of (r, c, w') \<Rightarrow>
         data c = a \<and> get_value a w' = get_value a w \<and>
         map sub_kind (drop (length (subs w)) (subs w'))
           = [if isArray (get_value a w) then AsArray else AsObject] \<and>
         map sub_target (drop (length (subs w)) (subs w')) = [a]) \<and>
      (case useObject rf opts scope w of (r, c, w') \<Rightarrow>
         data c = a \<and> get_value a w' = get_value a w \<and>
         map sub_kind (drop (length (subs w)) (subs w'))
           = [if isArray (get_value a w) then AsArray else AsObject] \<and>
         map sub_target (drop (length (subs w)) (subs w')) = [a]))"
proof (intro conjI impI allI)
  assume k: "no_target_key opts"
  show "case useList rf opts scope w of (r, c, w') \<Rightarrow>
         r = Inr (data c) \<and> data c = next_addr w \<and> get_value (data c) w' = JArr [] \<and>
         map sub_kind (drop (length (subs w)) (subs w')) = [AsArray] \<and>
         map sub_target (drop (length (subs w)) (subs w')) = [data c]"
    using useDatabaseRef_target_cell [where a = "next_addr w" and w = "snd (ref (JArr []) w)"
        and opts = "spread (next_addr w) opts" and rf = rf and scope = scope]
      spread_no_key [OF k, of "next_addr w"]
    by (simp add: useList_def split_beta accessor_keys_def)
  show "case useObject rf opts scope w of (r, c, w') \<Rightarrow>
         r = Inr (data c) \<and> data c = next_addr w \<and> get_value (data c) w' = JUndefined \<and>
         map sub_kind (drop (length (subs w)) (subs w')) = [AsObject] \<and>
         map sub_target (drop (length (subs w)) (subs w')) = [data c]"
    using useDatabaseRef_target_cell [where a = "next_addr w" and w = "snd (ref JUndefined w)"
        and opts = "spread (next_addr w) opts" and rf = rf and scope = scope]
      spread_no_key [OF k, of "next_addr w"]
    by (simp add: useObject_def split_beta accessor_keys_def)
next
  fix ops a
  assume h: "opts = Some ops \<and> target ops = TargetCell a \<and> a < next_addr w"
  then have t: "target ops = TargetCell a" and lt: "a < next_addr w" and o: "opts = Some ops"
    by simp_all
  show "case useList rf opts scope w of (r, c, w') \<Rightarrow>
         data c = a \<and> get_value a w' = get_value a w \<and>
         map sub_kind (drop (length (subs w)) (subs w'))
           = [if isArray (get_value a w) then AsArray else AsObject] \<and>
         map sub_target (drop (length (subs w)) (subs w')) = [a]"
    using useDatabaseRef_target_cell [where a = a and w = "snd (ref (JArr []) w)"
        and opts = ops and rf = rf and scope = scope] t lt
    by (simp add: useList_def split_beta o spread_target_cell [OF t])
  show "case useObject rf opts scope w of (r, c, w') \<Rightarrow>
         data c = a \<and> get_value a w' = get_value a w \<and>
         map sub_kind (drop (length (subs w)) (subs w'))
           = [if isArray (get_value a w) then AsArray else AsObject] \<and>
         map sub_target (drop (length (subs w)) (subs w')) = [a]"
    using useDatabaseRef_target_cell [where a = a and w = "snd (ref JUndefined w)"
        and opts = ops and rf = rf and scope = scope] t lt
    by (simp add: useObject_def split_beta o spread_target_cell [OF t])
qed

theorem entry_point_containers_witness:
  "no_target_key None \<and>
   fst (useList (Plain (JSource 7)) None False demo_world) = Inr 1 \<and>
   get_value 1 (world_of (useList (Plain (JSource 7)) None False demo_world)) = JArr [] \<and>
   map sub_kind (subs (world_of (useList (Plain (JSource 7)) None False demo_world))) = [AsArray] \<and>
   map sub_kind (subs (world_of (useObject (Plain (JSource 7)) None False demo_world)))
     = [AsObject] \<and>
   target (no_options\<lparr>target := TargetCell 0\<rparr>) = TargetCell 0 \<and> 0 < next_addr demo_world \<and>
   data (closure_of (useList (Plain (JSource 7)) (Some (no_options\<lparr>target := TargetCell 0\<rparr>))
      False demo_world)) = 0 \<and>
   map sub_kind (subs (world_of (useList (Plain (JSource 7))
      (Some (no_options\<lparr>target := TargetCell 0\<rparr>)) False demo_world))) = [AsObject]"
proof -
  have k: "no_target_key None" by (simp add: no_target_key_def)
  from entry_point_containers [where opts = None and rf = "Plain (JSource 7)" and scope = False
      and w = demo_world] k
  have a: "fst (useList (Plain (JSource 7)) None False demo_world) = Inr 1"
    "get_value 1 (world_of (useList (Plain (JSource 7)) None False demo_world)) = JArr []"
    "map sub_kind (subs (world_of (useList (Plain (JSource 7)) None False demo_world))) = [AsArray]"
    "map sub_kind (subs (world_of (useObject (Plain (JSource 7)) None False demo_world)))
       = [AsObject]"
    by (auto simp add: split_beta demo_world_eval)
  from entry_point_containers [where opts = "Some (no_options\<lparr>target := TargetCell 0\<rparr>)"
      and rf = "Plain (JSource 7)" and scope = False and w = demo_world]
  have b: "data (closure_of (useList (Plain (JSource 7))
        (Some (no_options\<lparr>target := TargetCell 0\<rparr>)) False demo_world)) = 0"
    "map sub_kind (subs (world_of (useList (Plain (JSource 7))
        (Some (no_options\<lparr>target := TargetCell 0\<rparr>)) False demo_world))) = [AsObject]"
    by (auto simp add: split_beta demo_world_eval)
  from k a b show ?thesis by (simp add: demo_world_eval)
qed

text \<open>
  Claim C5 as stated fails for a caller-supplied target: \<open>useList\<close> called with
  \<open>{ target: t }\<close>, where \<open>t\<close> is a cell holding \<open>undefined\<close>, binds with the caller's cell
  as the container, which holds \<open>undefined\<close>, and \<open>bindAsObject\<close> is chosen.
\<close>

theorem useList_caller_target_counterexample:
  "fst (useList (Plain (JSource 7)) (Some (no_options\<lparr>target := TargetCell 0\<rparr>)) False
         (snd (ref JUndefined empty_world))) = Inr 0 \<and>
   data (closure_of (useList (Plain (JSource 7)) (Some (no_options\<lparr>target := TargetCell 0\<rparr>)) False
         (snd (ref JUndefined empty_world)))) = 0 \<and>
   get_value 0 (world_of (useList (Plain (JSource 7)) (Some (no_options\<lparr>target := TargetCell 0\<rparr>)) False
         (snd (ref JUndefined empty_world)))) = JUndefined \<and>
   map sub_kind (subs (world_of (useList (Plain (JSource 7)) (Some (no_options\<lparr>target := TargetCell 0\<rparr>)) False
         (snd (ref JUndefined empty_world))))) = [AsObject] \<and>
   map sub_target (subs (world_of (useList (Plain (JSource 7)) (Some (no_options\<lparr>target := TargetCell 0\<rparr>)) False
         (snd (ref JUndefined empty_world))))) = [0]"
  by (simp add: construct_defs)

section \<open>Rebinding, the registry, teardown and the handle\<close>

text \<open>
  Claim C6 (as amended): after construction and any sequence of events the controller has
  not thrown, and the references it has bound, in order, are: the plain reference alone,
  once, when the reference is a plain value; and, when it is a reactive cell, the value
  the watcher saw at setup followed by each value the running watcher saw that differed
  from the one it saw just before. A value that comes back after a different one is bound
  again. The number of promises created is the number of binds.
\<close>

theorem binds_follow_watcher:
  "case useDatabaseRef rf opts scope w of (r, c, w1) \<Rightarrow>
     \<exists>c' w'. run evs (c, w1) = Inr (c', w') \<and>
       map sub_source (drop (length (subs w)) (subs w'))
         = (case rf of Plain v \<Rightarrow> [v]
            | Reactive a \<Rightarrow> remdups_adj (oldValue c # observed scope evs)) \<and>
       length (createdPromises c') = length (drop (length (subs w)) (subs w')) \<and>
       (\<forall>a. rf = Reactive a \<and> a < next_addr w \<longrightarrow> oldValue c = get_value a w)"
proof -
  obtain r c w1 where u: "useDatabaseRef rf opts scope w = (r, c, w1)"
    by (cases "useDatabaseRef rf opts scope w") auto
  from useDatabaseRef_inv [of rf opts scope w] u have i: "ctl_inv rf opts scope c" by simp
  from useDatabaseRef_first_bind [where rf = rf and opts = opts and scope = scope and w = w] u
  obtain s where
    f: "subs w1 = subs w @ [s]"
       "sub_source s = (case rf of Plain v \<Rightarrow> v | Reactive a \<Rightarrow> oldValue c)"
       "createdPromises c = [sub_promise s]"
       "watching c = (case rf of Plain v \<Rightarrow> False | Reactive a \<Rightarrow> True)"
       "\<forall>a. rf = Reactive a \<and> a < next_addr w \<longrightarrow> oldValue c = get_value a w"
    by auto
  from run_sources [OF i, of evs w1] obtain c' w' ext where
    g: "run evs (c, w1) = Inr (c', w')" "subs w' = subs w1 @ ext"
       "map sub_source ext
          = (if watching c then tl (remdups_adj (oldValue c # observed scope evs)) else [])"
       "createdPromises c' = createdPromises c @ map sub_promise ext"
    by blast
  have "remdups_adj (oldValue c # observed scope evs)
          = oldValue c # tl (remdups_adj (oldValue c # observed scope evs))"
    by (metis hd_remdups_adj list.collapse list.sel(1) remdups_adj_Nil_iff list.distinct(1))
  with f g have "map sub_source (drop (length (subs w)) (subs w'))
         = (case rf of Plain v \<Rightarrow> [v]
            | Reactive a \<Rightarrow> remdups_adj (oldValue c # observed scope evs))"
    by (cases rf) simp_all
  with f g u show ?thesis by simp
qed

theorem binds_follow_watcher_witness:
  "0 < next_addr demo_world \<and>
   oldValue (fst demo_start) = get_value 0 demo_world \<and>
   (\<exists>c' w'. run [ReferenceSet (JSource 2), ReferenceSet (JSource 2), ReferenceSet (JSource 1)]
        demo_start = Inr (c', w') \<and>
      map sub_source (subs w') = [JSource 1, JSource 2, JSource 1] \<and>
      length (createdPromises c') = length (subs w'))"
proof -
  have o: "oldValue (closure_of (useDatabaseRef (Reactive 0) no_options True demo_world)) = JSource 1"
    using demo_start_eval(1) by (simp add: demo_start_def)
  have s: "(closure_of (useDatabaseRef (Reactive 0) no_options True demo_world),
            world_of (useDatabaseRef (Reactive 0) no_options True demo_world)) = demo_start"
    by (simp add: demo_start_def)
  from binds_follow_watcher [where rf = "Reactive 0" and opts = no_options and scope = True
      and w = demo_world
      and evs = "[ReferenceSet (JSource 2), ReferenceSet (JSource 2), ReferenceSet (JSource 1)]"]
  show ?thesis
    unfolding split_beta s o by (simp add: demo_world_eval demo_start_eval(1))
qed

text \<open>
  Claim C6 as stated fails: the reference cell holds \<open>JSource 1\<close> at setup, is assigned
  \<open>JSource 2\<close> and then \<open>JSource 1\<close> again. The watcher has seen two distinct references,
  and the controller has made three bind attempts: \<open>JSource 1\<close> is bound twice.
\<close>

theorem binds_follow_watcher_counterexample:
  "demo_toggled = run [ReferenceSet (JSource 2), ReferenceSet (JSource 1)]
      (snd (useDatabaseRef (Reactive 0) no_options True demo_world)) \<and>
   get_value 0 demo_world = JSource 1 \<and>
   \<not> isl demo_toggled \<and>
   map sub_source (subs (snd (projr demo_toggled))) = [JSource 1, JSource 2, JSource 1] \<and>
   length (createdPromises (fst (projr demo_toggled))) = 3 \<and>
   length (remdups [JSource 1, JSource 2, JSource 1]) = 2"
proof -
  have "demo_toggled = run [ReferenceSet (JSource 2), ReferenceSet (JSource 1)]
      (snd (useDatabaseRef (Reactive 0) no_options True demo_world))"
    unfolding demo_toggled_def demo_start_def by (rule refl)
  with demo_toggled_eval demo_world_eval(6) show ?thesis by simp
qed

text \<open>
  Claim C8 (as amended): for every key that is not the name of a property of
  \<open>Object.prototype\<close>, \<open>internalUnbind\<close> does not throw and changes neither the registry
  nor the world when the registry is undefined or does not own the key. When the registry
  owns the key, whatever its name, the stored unbind procedure is called once, with the
  given reset policy, and the entry is removed; for a key that is not the name of a
  property of \<open>Object.prototype\<close> the same call repeated at once changes nothing.
\<close>

theorem internalUnbind_pop:
  "internalUnbind key None r w = Inr (None, w) \<and>
   (m key = None \<and> key \<notin> set object_prototype_keys \<longrightarrow>
      internalUnbind key (Some m) r w = Inr (Some m, w)) \<and>
   (m key = Some h \<longrightarrow>
      internalUnbind key (Some m) r w = Inr (Some (m(key := None)), invoke h r w) \<and>
      unbind_calls (invoke h r w) = unbind_calls w @ [(h, r)] \<and>
      (key \<notin> set object_prototype_keys \<longrightarrow>
         internalUnbind key (Some (m(key := None))) r (invoke h r w)
           = Inr (Some (m(key := None)), invoke h r w)))"
  by (simp add: internalUnbind_def get_member_def call_member_def object_prototype_keys_def)

theorem internalUnbind_pop_witness:
  "Map.empty ''b'' = (None :: handle option) \<and> ''b'' \<notin> set object_prototype_keys \<and>
   [''a'' \<mapsto> Unbind 0] ''a'' = Some (Unbind 0) \<and> ''a'' \<notin> set object_prototype_keys \<and>
   internalUnbind ''b'' (Some Map.empty) (ResetBool False) empty_world
     = Inr (Some Map.empty, empty_world) \<and>
   internalUnbind ''a'' (Some [''a'' \<mapsto> Unbind 0]) (ResetBool False) empty_world
     = Inr (Some Map.empty, invoke (Unbind 0) (ResetBool False) empty_world) \<and>
   unbind_calls (invoke (Unbind 0) (ResetBool False) empty_world)
     = [(Unbind 0, ResetBool False)] \<and>
   internalUnbind ''a'' (Some Map.empty) (ResetBool False)
       (invoke (Unbind 0) (ResetBool False) empty_world)
     = Inr (Some Map.empty, invoke (Unbind 0) (ResetBool False) empty_world)"
proof -
  have k: "''b'' \<notin> set object_prototype_keys" "''a'' \<notin> set object_prototype_keys"
    by (simp_all add: object_prototype_keys_def object_prototype_functions_def)
  from internalUnbind_pop [of "''b''" "ResetBool False" empty_world Map.empty]
    internalUnbind_pop [of "''a''" "ResetBool False" empty_world "[''a'' \<mapsto> Unbind 0]" "Unbind 0"]
    k
  show ?thesis by (simp add: empty_world_def)
qed

text \<open>
  Claim C8 as stated fails for a key the registry does not own: with the key \<open>__proto__\<close>
  and the empty registry \<open>{}\<close>, \<open>unbinds[key]\<close> is \<open>Object.prototype\<close>, which is truthy and
  not callable, and the call of line 141 throws a \<open>TypeError\<close>; so does the key
  \<open>__defineGetter__\<close>. With the key \<open>toLocaleString\<close> and a registry that owns only
  \<open>toString\<close>, the unbind procedure stored under \<open>toString\<close> is called.
\<close>

theorem internalUnbind_inherited_key_counterexample:
  "Map.empty ''__proto__'' = (None :: handle option) \<and>
   internalUnbind ''__proto__'' (Some Map.empty) (ResetBool False) empty_world = Inl TypeError \<and>
   internalUnbind ''__defineGetter__'' (Some Map.empty) (ResetBool False) empty_world
     = Inl TypeError \<and>
   [''toString'' \<mapsto> Unbind 0] ''toLocaleString'' = None \<and>
   internalUnbind ''toLocaleString'' (Some [''toString'' \<mapsto> Unbind 0]) (ResetBool False)
       empty_world
     = Inr (Some [''toString'' \<mapsto> Unbind 0], invoke (Unbind 0) ResetUndefined empty_world) \<and>
   unbind_calls (invoke (Unbind 0) ResetUndefined empty_world) = [(Unbind 0, ResetUndefined)]"
  by (simp add: internalUnbind_def get_member_def call_member_def object_prototype_functions_def
      empty_world_def)

text \<open>
  Claim C9 (as amended): in every state a controller reaches, the teardown callback
  registered with the owning scope calls only the current unbind procedure, with the
  configured reset policy, and leaves the closure as it is: it does not call
  \<open>stopWatcher\<close>, and neither does an assignment to the reference. The handle's
  \<open>unbind()\<close> calls \<open>stopWatcher\<close> and then the same procedure, after which the watcher
  does not run. The watcher was created inside the
  owning scope, so disposing the scope stops it before the callback runs, and after the
  disposal no event starts a bind attempt.
\<close>

theorem scope_teardown_and_watcher:
  assumes "run evs (snd (useDatabaseRef rf opts scope w0)) = Inr (c, w)"
  shows "\<exists>h. priv_unbind c = Some h \<and>
     scope_teardown c w = Inr (c, invoke h (reset opts) w) \<and>
     unbind_calls (invoke h (reset opts) w) = unbind_calls w @ [(h, reset opts)] \<and>
     unbind c w = Inr (stop (stopWatcher c) c, invoke h (reset opts) w) \<and>
     \<not> watching (stop (stopWatcher c) c) \<and>
     watching (fst (reference_set v c w)) = watching c \<and>
     (scope \<and> \<not> scope_disposed c \<longrightarrow>
        dispose_scope c w
          = Inr (c\<lparr>watching := False, scope_disposed := True\<rparr>, invoke h (reset opts) w)) \<and>
     (scope \<longrightarrow>
        (\<exists>c' w'. run (ScopeDispose # evs') (c, w) = Inr (c', w') \<and>
           subs w' = subs w \<and> createdPromises c' = createdPromises c))"
proof -
  have k: "watching (fst (reference_set v c w)) = watching c"
    by (simp add: reference_set_ctl split: reference.splits)
  from reachable_inv [OF assms] have i: "ctl_inv rf opts scope c" .
  then obtain h where h: "priv_unbind c = Some h" by (auto simp: ctl_inv_def)
  from i have o: "options c = opts" and s: "hasCurrentScope c = scope"
    and nw: "\<not> watching (stop (stopWatcher c) c)"
    by (auto simp: ctl_inv_def split: reference.splits)
  have t: "scope_teardown c w = Inr (c, invoke h (reset opts) w)"
    by (simp add: scope_teardown_def call_priv_unbind_def h o)
  have u: "unbind c w = Inr (stop (stopWatcher c) c, invoke h (reset opts) w)"
    by (simp add: unbind_def call_priv_unbind_def Let_def h o)
  have d: "scope \<and> \<not> scope_disposed c \<longrightarrow>
        dispose_scope c w
          = Inr (c\<lparr>watching := False, scope_disposed := True\<rparr>, invoke h (reset opts) w)"
    by (simp add: dispose_scope_def scope_teardown_def call_priv_unbind_def h o s)
  have a: "scope \<longrightarrow>
        (\<exists>c' w'. run (ScopeDispose # evs') (c, w) = Inr (c', w') \<and>
           subs w' = subs w \<and> createdPromises c' = createdPromises c)"
  proof
    assume sc: scope
    from run_sources [OF i, of "ScopeDispose # evs'" w] obtain c' w' ext where
      g: "run (ScopeDispose # evs') (c, w) = Inr (c', w')" "subs w' = subs w @ ext"
         "map sub_source ext
            = (if watching c
               then tl (remdups_adj (oldValue c # observed scope (ScopeDispose # evs'))) else [])"
         "createdPromises c' = createdPromises c @ map sub_promise ext"
      by blast
    from g(3) sc have "ext = []" by (simp split: if_splits)
    with g show "\<exists>c' w'. run (ScopeDispose # evs') (c, w) = Inr (c', w') \<and>
           subs w' = subs w \<and> createdPromises c' = createdPromises c"
      by simp
  qed
  from h t u nw k d a show ?thesis by simp
qed

theorem scope_teardown_and_watcher_witness:
  "run [] (snd (useDatabaseRef (Reactive 0) no_options True demo_world))
     = Inr (fst demo_start, snd demo_start) \<and>
   \<not> scope_disposed (fst demo_start) \<and>
   scope_teardown (fst demo_start) (snd demo_start)
     = Inr (fst demo_start, invoke (Unbind 0) ResetUndefined (snd demo_start)) \<and>
   watching (fst demo_start) \<and>
   dispose_scope (fst demo_start) (snd demo_start)
     = Inr ((fst demo_start)\<lparr>watching := False, scope_disposed := True\<rparr>,
            invoke (Unbind 0) ResetUndefined (snd demo_start)) \<and>
   (\<exists>c' w'. run [ScopeDispose, ReferenceSet (JSource 2)] (fst demo_start, snd demo_start)
        = Inr (c', w') \<and>
      subs w' = subs (snd demo_start) \<and> createdPromises c' = [0])"
proof -
  have p: "priv_unbind (fst demo_start) = Some (Unbind 0)" "\<not> scope_disposed (fst demo_start)"
    "watching (fst demo_start)" "createdPromises (fst demo_start) = [0]"
    "reset no_options = ResetUndefined"
    by (simp_all add: demo_start_eval(1) no_options_def)
  from scope_teardown_and_watcher [OF demo_start_run, where evs' = "[ReferenceSet (JSource 2)]"]
    demo_start_run p
  show ?thesis by auto
qed

text \<open>
  Claim C9 as stated fails in its last part: the controller was constructed inside a scope
  on a reactive reference; the scope is disposed and the reference cell is then assigned
  a new reference. The cell holds the new reference, the watcher is stopped, and no
  second bind attempt has been made: there is still one promise and one listener.
\<close>

theorem scope_teardown_and_watcher_counterexample:
  "demo_disposed = run [ScopeDispose, ReferenceSet (JSource 2)]
      (snd (useDatabaseRef (Reactive 0) no_options True demo_world)) \<and>
   hasCurrentScope (closure_of (useDatabaseRef (Reactive 0) no_options True demo_world)) \<and>
   get_value 0 (world_of (useDatabaseRef (Reactive 0) no_options True demo_world)) = JSource 1 \<and>
   \<not> isl demo_disposed \<and>
   get_value 0 (snd (projr demo_disposed)) = JSource 2 \<and>
   \<not> watching (fst (projr demo_disposed)) \<and>
   createdPromises (fst (projr demo_disposed)) = [0] \<and>
   length (subs (snd (projr demo_disposed))) = 1 \<and>
   unbind_calls (snd (projr demo_disposed)) = [(Unbind 0, ResetUndefined)]"
proof -
  have a: "demo_disposed = run [ScopeDispose, ReferenceSet (JSource 2)]
      (snd (useDatabaseRef (Reactive 0) no_options True demo_world))"
    unfolding demo_disposed_def demo_start_def by (rule refl)
  have b: "hasCurrentScope (closure_of (useDatabaseRef (Reactive 0) no_options True demo_world))"
    "get_value 0 (world_of (useDatabaseRef (Reactive 0) no_options True demo_world)) = JSource 1"
    using demo_start_eval(1,6) by (simp_all add: demo_start_def)
  from a b demo_disposed_eval show ?thesis by simp
qed




end
